theory Spec2Isabelle
  imports Complex_Main "HOL-Library.Multiset" "HOL-Library.Char_ord" "HOL-Library.List_Lexorder"
    "HOL-Library.Product_Lexorder"
begin

section \<open>Numbers of the feature layer\<close>

text \<open>
  The feature functions of \<^verbatim>\<open>src/utilidades/features.py\<close> compute on pandas float
  columns. A float is modelled as a real number or one of the three special values
  a pandas division can produce: \<open>NaN\<close> (missing, \<open>0/0\<close>) and the two infinities
  (\<open>x/0\<close>). Rounding is idealised: finite values are exact reals.
\<close>

datatype fnum = Fin real | PInf | NInf | NaN

text \<open>Comparisons follow IEEE 754: every comparison with \<open>NaN\<close> is false.\<close>

fun flt :: "fnum \<Rightarrow> fnum \<Rightarrow> bool" where
  "flt NaN _ = False"
| "flt _ NaN = False"
| "flt (Fin a) (Fin b) = (a < b)"
| "flt _ NInf = False"
| "flt PInf _ = False"
| "flt NInf _ = True"
| "flt _ PInf = True"

fun fle :: "fnum \<Rightarrow> fnum \<Rightarrow> bool" where
  "fle NaN _ = False"
| "fle _ NaN = False"
| "fle (Fin a) (Fin b) = (a \<le> b)"
| "fle NInf _ = True"
| "fle _ PInf = True"
| "fle _ NInf = False"
| "fle PInf _ = False"

fun fadd :: "fnum \<Rightarrow> fnum \<Rightarrow> fnum" where
  "fadd NaN _ = NaN"
| "fadd _ NaN = NaN"
| "fadd (Fin a) (Fin b) = Fin (a + b)"
| "fadd PInf NInf = NaN"
| "fadd NInf PInf = NaN"
| "fadd PInf _ = PInf"
| "fadd _ PInf = PInf"
| "fadd NInf _ = NInf"
| "fadd _ NInf = NInf"

fun fneg :: "fnum \<Rightarrow> fnum" where
  "fneg NaN = NaN"
| "fneg (Fin a) = Fin (- a)"
| "fneg PInf = NInf"
| "fneg NInf = PInf"

definition fsub :: "fnum \<Rightarrow> fnum \<Rightarrow> fnum" where
  "fsub x y = fadd x (fneg y)"

text \<open>The sign of a value, for products and quotients with an infinity.\<close>

fun fsign :: "fnum \<Rightarrow> int" where
  "fsign NaN = 0"
| "fsign (Fin a) = (if a < 0 then - 1 else if a = 0 then 0 else 1)"
| "fsign PInf = 1"
| "fsign NInf = - 1"

definition inf_of_sign :: "int \<Rightarrow> fnum" where
  "inf_of_sign s = (if s = 0 then NaN else if 0 < s then PInf else NInf)"

fun fmul :: "fnum \<Rightarrow> fnum \<Rightarrow> fnum" where
  "fmul NaN _ = NaN"
| "fmul _ NaN = NaN"
| "fmul (Fin a) (Fin b) = Fin (a * b)"
| "fmul x y = inf_of_sign (fsign x * fsign y)"

text \<open>
  Division as pandas does it on a numeric column: no exception on a zero divisor,
  \<open>0/0\<close> is \<open>NaN\<close> and \<open>x/0\<close> is an infinity with the sign of \<open>x\<close>.
\<close>

fun fdiv :: "fnum \<Rightarrow> fnum \<Rightarrow> fnum" where
  "fdiv NaN _ = NaN"
| "fdiv _ NaN = NaN"
| "fdiv (Fin a) (Fin b) = (if b = 0 then inf_of_sign (fsign (Fin a)) else Fin (a / b))"
| "fdiv (Fin a) _ = Fin 0"
| "fdiv x (Fin b) = inf_of_sign (fsign x * (if b < 0 then - 1 else 1))"
| "fdiv _ _ = NaN"

text \<open>\<^verbatim>\<open>Series.max()\<close>: the largest value that is not \<open>NaN\<close>; \<open>NaN\<close> when there is none.\<close>

fun fmax2 :: "fnum \<Rightarrow> fnum \<Rightarrow> fnum" where
  "fmax2 NaN y = y"
| "fmax2 x NaN = x"
| "fmax2 x y = (if fle x y then y else x)"

definition series_max :: "fnum list \<Rightarrow> fnum" where
  "series_max xs = foldr fmax2 xs NaN"

section \<open>Binning\<close>

text \<open>
  \<^verbatim>\<open>pd.cut(x, bins=[b0, ..., bn], labels=[l1, ..., ln])\<close> with the defaults the source
  leaves in place (\<^verbatim>\<open>right=True\<close>, \<^verbatim>\<open>include_lowest=False\<close>): the value gets label
  \<open>li\<close> when \<open>b(i-1) < x \<le> bi\<close>, and no label (a missing category) otherwise.
\<close>

fun pd_cut :: "fnum list \<Rightarrow> string list \<Rightarrow> fnum \<Rightarrow> string option" where
  "pd_cut (lo # hi # bs) (l # ls) x =
     (if flt lo x \<and> fle x hi then Some l else pd_cut (hi # bs) ls x)"
| "pd_cut _ _ _ = None"

subsection \<open>Configuration constants (configuracion.py)\<close>

definition VENTANA_RECENCIA_DIAS :: real where
  "VENTANA_RECENCIA_DIAS = 180"

definition BINS_GASTO_MENSUAL :: "fnum list" where
  "BINS_GASTO_MENSUAL = [Fin 0, Fin 500, Fin 1500, Fin 5000, PInf]"

definition ETIQUETAS_GASTO :: "string list" where
  "ETIQUETAS_GASTO = [''Bajo'', ''Medio'', ''Alto'', ''Premium'']"

definition BINS_FRECUENCIA_ENVIOS :: "fnum list" where
  "BINS_FRECUENCIA_ENVIOS = [Fin 0, Fin 10, Fin 30, Fin 100, PInf]"

definition ETIQUETAS_FRECUENCIA :: "string list" where
  "ETIQUETAS_FRECUENCIA = [''Ocasional'', ''Regular'', ''Frecuente'', ''VIP'']"

subsection \<open>The seven categorical features (features.py)\<close>

text \<open>Each definition is the \<^verbatim>\<open>pd.cut\<close> call of the function named in its comment.\<close>

definition categoria_recencia :: "fnum \<Rightarrow> string option" where
  \<comment> \<open>\<^verbatim>\<open>calcular_recencia\<close>\<close>
  "categoria_recencia =
     pd_cut [Fin 0, Fin 30, Fin 90, Fin 180, PInf]
       [''Muy_Reciente'', ''Reciente'', ''Inactivo'', ''Muy_Inactivo'']"

definition categoria_antiguedad :: "fnum \<Rightarrow> string option" where
  \<comment> \<open>\<^verbatim>\<open>calcular_antiguedad\<close>\<close>
  "categoria_antiguedad =
     pd_cut [Fin 0, Fin 180, Fin 365, Fin 730, PInf]
       [''Nuevo'', ''Establecido'', ''Veterano'', ''Antiguo'']"

definition segmento_gasto :: "fnum \<Rightarrow> string option" where
  \<comment> \<open>\<^verbatim>\<open>categorizar_monetary\<close>\<close>
  "segmento_gasto = pd_cut BINS_GASTO_MENSUAL ETIQUETAS_GASTO"

definition segmento_frecuencia :: "fnum \<Rightarrow> string option" where
  \<comment> \<open>\<^verbatim>\<open>categorizar_frequency\<close>\<close>
  "segmento_frecuencia = pd_cut BINS_FRECUENCIA_ENVIOS ETIQUETAS_FRECUENCIA"

definition nivel_engagement :: "fnum \<Rightarrow> string option" where
  \<comment> \<open>\<^verbatim>\<open>calcular_engagement_score\<close>\<close>
  "nivel_engagement =
     pd_cut [Fin 0, Fin 25, Fin 50, Fin 75, Fin 100]
       [''Bajo'', ''Medio'', ''Alto'', ''Muy_Alto'']"

definition categoria_ticket :: "fnum \<Rightarrow> string option" where
  \<comment> \<open>\<^verbatim>\<open>crear_features_comportamiento\<close>\<close>
  "categoria_ticket =
     pd_cut [Fin 0, Fin 50, Fin 100, Fin 200, PInf]
       [''Bajo'', ''Medio'', ''Alto'', ''Premium'']"

definition nivel_riesgo :: "fnum \<Rightarrow> string option" where
  \<comment> \<open>\<^verbatim>\<open>crear_features_riesgo_churn\<close>; the accented fourth label is written in ASCII\<close>
  "nivel_riesgo =
     pd_cut [Fin (- 1), Fin 0, Fin 2, Fin 4, Fin 6]
       [''Bajo'', ''Medio'', ''Alto'', ''Critico'']"

section \<open>Risk score (crear\_features\_riesgo\_churn)\<close>

text \<open>
  The columns the function reads, one record per row of the table, and the columns
  it adds. \<^verbatim>\<open>(cond).astype(int)\<close> is 1 when the comparison holds and 0 otherwise
  (also on a missing value, whose comparisons are all false).
\<close>

record riesgo_entrada =
  recencia_dias :: fnum
  engagement_score :: fnum
  antiguedad_dias :: fnum

record riesgo_salida =
  riesgo_inactividad :: int
  riesgo_bajo_engagement :: int
  riesgo_nuevo_inactivo :: int
  score_riesgo_churn :: int
  nivel_riesgo_col :: "string option"

definition astype_int :: "bool \<Rightarrow> int" where
  "astype_int b = (if b then 1 else 0)"

definition crear_features_riesgo_churn :: "riesgo_entrada \<Rightarrow> riesgo_salida" where
  "crear_features_riesgo_churn r =
     (let inactividad = astype_int (flt (Fin VENTANA_RECENCIA_DIAS) (recencia_dias r));
          bajo = astype_int (flt (engagement_score r) (Fin 30));
          nuevo = astype_int (flt (antiguedad_dias r) (Fin 180) \<and> flt (Fin 90) (recencia_dias r));
          score = inactividad * 3 + bajo * 2 + nuevo * 1
      in \<lparr> riesgo_inactividad = inactividad,
           riesgo_bajo_engagement = bajo,
           riesgo_nuevo_inactivo = nuevo,
           score_riesgo_churn = score,
           nivel_riesgo_col = nivel_riesgo (Fin (real_of_int score)) \<rparr>)"

section \<open>Engagement score (calcular\_engagement\_score)\<close>

text \<open>
  The three columns the function reads. The maxima are taken over the whole batch,
  so the function is modelled on the list of rows; it returns, per row, the two
  columns it adds (the normalisation columns are dropped again by the source).
\<close>

record rfm =
  rfm_recencia_dias :: fnum
  rfm_total_shipments :: fnum
  rfm_monthly_spend :: fnum

definition engagement_fila :: "fnum \<Rightarrow> fnum \<Rightarrow> fnum \<Rightarrow> rfm \<Rightarrow> fnum" where
  "engagement_fila recencia_max frecuencia_max gasto_max r =
     (let recencia_norm = fsub (Fin 1) (fdiv (rfm_recencia_dias r) recencia_max);
          frecuencia_norm = fdiv (rfm_total_shipments r) frecuencia_max;
          gasto_norm = fdiv (rfm_monthly_spend r) gasto_max
      in fmul (fadd (fadd (fmul recencia_norm (Fin 0.4)) (fmul frecuencia_norm (Fin 0.3)))
                    (fmul gasto_norm (Fin 0.3)))
              (Fin 100))"

definition calcular_engagement_score :: "rfm list \<Rightarrow> (fnum \<times> string option) list" where
  "calcular_engagement_score df =
     (let recencia_max = series_max (map rfm_recencia_dias df);
          frecuencia_max = series_max (map rfm_total_shipments df);
          gasto_max = series_max (map rfm_monthly_spend df)
      in map (\<lambda>r. let s = engagement_fila recencia_max frecuencia_max gasto_max r
                   in (s, nivel_engagement s)) df)"

section \<open>Results on the feature layer\<close>

subsection \<open>Order facts of the float comparisons\<close>

lemma fle_not_flt: "fle a b \<Longrightarrow> \<not> flt b a"
  by (cases a; cases b) auto

lemma flt_not_fle: "flt a b \<Longrightarrow> \<not> fle b a"
  by (cases a; cases b) auto

lemma flt_imp_fle_refl: "flt a b \<Longrightarrow> fle b b"
  by (cases a; cases b) auto

subsection \<open>Risk score\<close>

text \<open>
  Claim C1, as the code has it. For a record whose only risk flag is inactivity
  (recency beyond the 180-day window, engagement score at least 30, not a new and
  inactive account), \<^verbatim>\<open>crear_features_riesgo_churn\<close> assigns
  \<^verbatim>\<open>score_riesgo_churn = 3\<close>, and the bins \<^verbatim>\<open>[-1, 0, 2, 4, 6]\<close> put the score 3 into the
  interval (2, 4], whose label is \<^verbatim>\<open>Alto\<close>, the third of the four tiers.
\<close>

theorem riesgo_solo_inactividad:
  assumes "flt (Fin VENTANA_RECENCIA_DIAS) (recencia_dias r)"
      and "fle (Fin 30) (engagement_score r)"
      and "\<not> (flt (antiguedad_dias r) (Fin 180) \<and> flt (Fin 90) (recencia_dias r))"
  shows "score_riesgo_churn (crear_features_riesgo_churn r) = 3 \<and>
         nivel_riesgo_col (crear_features_riesgo_churn r) = Some ''Alto''"
proof -
  have "\<not> flt (engagement_score r) (Fin 30)"
    using assms(2) by (rule fle_not_flt)
  then show ?thesis
    using assms(1,3)
    by (simp add: crear_features_riesgo_churn_def astype_int_def Let_def nivel_riesgo_def)
qed

theorem riesgo_solo_inactividad_witness:
  "flt (Fin VENTANA_RECENCIA_DIAS) (Fin 200) \<and> fle (Fin 30) (Fin 50) \<and>
   score_riesgo_churn (crear_features_riesgo_churn
     \<lparr>recencia_dias = Fin 200, engagement_score = Fin 50, antiguedad_dias = Fin 400\<rparr>) = 3 \<and>
   nivel_riesgo_col (crear_features_riesgo_churn
     \<lparr>recencia_dias = Fin 200, engagement_score = Fin 50, antiguedad_dias = Fin 400\<rparr>)
     = Some ''Alto''"
  using riesgo_solo_inactividad
    [of "\<lparr>recencia_dias = Fin 200, engagement_score = Fin 50, antiguedad_dias = Fin 400\<rparr>"]
  by (simp add: VENTANA_RECENCIA_DIAS_def)

text \<open>
  The claim as the specification words it (second tier, \<^verbatim>\<open>Medio\<close>) fails on a customer
  200 days inactive, with engagement 50 and 400 days of tenure: the score is 3 and
  the tier is not \<^verbatim>\<open>Medio\<close>.
\<close>

theorem riesgo_tres_no_es_medio:
  "flt (Fin VENTANA_RECENCIA_DIAS) (Fin 200) \<and> fle (Fin 30) (Fin 50) \<and>
   score_riesgo_churn (crear_features_riesgo_churn
     \<lparr>recencia_dias = Fin 200, engagement_score = Fin 50, antiguedad_dias = Fin 400\<rparr>) = 3 \<and>
   nivel_riesgo_col (crear_features_riesgo_churn
     \<lparr>recencia_dias = Fin 200, engagement_score = Fin 50, antiguedad_dias = Fin 400\<rparr>)
     \<noteq> Some ''Medio''"
  by (simp add: crear_features_riesgo_churn_def astype_int_def Let_def nivel_riesgo_def
        VENTANA_RECENCIA_DIAS_def)

subsection \<open>Bin edges\<close>

lemma not_fle_flt: "flt lo x \<Longrightarrow> flt lo hi \<Longrightarrow> \<not> fle x hi \<Longrightarrow> flt hi x"
  by (cases lo; cases x; cases hi) auto

text \<open>
  With strictly increasing edges, a value that lies exactly on an inner or on the
  last edge gets the label of the bin below that edge.
\<close>

lemma pd_cut_interior_edge:
  "sorted_wrt flt bins \<Longrightarrow> length labels + 1 = length bins \<Longrightarrow> 0 < i \<Longrightarrow> i < length bins
   \<Longrightarrow> pd_cut bins labels (bins ! i) = Some (labels ! (i - 1))"
proof (induction bins labels "bins ! i" arbitrary: i rule: pd_cut.induct)
  case (1 lo hi bs l ls)
  show ?case
  proof (cases "i = 1")
    case True
    with 1 show ?thesis by (auto dest: flt_imp_fle_refl)
  next
    case False
    then obtain j where j: "i = Suc j" "0 < j" using 1(4) by (cases i) auto
    have "flt hi ((hi # bs) ! j)" using 1(2,5) j by (cases j) auto
    then have nle: "\<not> fle ((hi # bs) ! j) hi" by (rule flt_not_fle)
    have "pd_cut (hi # bs) ls ((hi # bs) ! j) = Some (ls ! (j - 1))"
      using 1 j nle by (intro 1(1)) auto
    then show ?thesis using j nle by (cases j) auto
  qed
qed auto

text \<open>Every value strictly above the first edge and up to the last edge gets a label.\<close>

lemma pd_cut_in_range:
  "sorted_wrt flt bins \<Longrightarrow> length labels + 1 = length bins \<Longrightarrow> 2 \<le> length bins \<Longrightarrow>
   flt (hd bins) x \<Longrightarrow> fle x (last bins) \<Longrightarrow> \<exists>l. pd_cut bins labels x = Some l"
proof (induction bins labels x rule: pd_cut.induct)
  case (1 lo hi bs l ls x)
  show ?case
  proof (cases "flt lo x \<and> fle x hi")
    case True
    then show ?thesis by simp
  next
    case False
    with 1(5) have nle: "\<not> fle x hi" by simp
    have "flt lo hi" using 1(2) by simp
    then have hx: "flt hi x" using 1(5) nle by (auto intro: not_fle_flt)
    have ne: "bs \<noteq> []" using 1(6) nle by (cases bs) auto
    have "\<exists>l. pd_cut (hi # bs) ls x = Some l"
      using 1(2,3,6) hx ne False by (intro 1(1)) (auto simp: Suc_le_eq)
    then show ?thesis using False by simp
  qed
qed auto

text \<open>The first inner edge of each of the seven features falls into the lowest bin.\<close>

lemma primer_borde_interior:
  "categoria_recencia (Fin 30) = Some ''Muy_Reciente'' \<and>
   categoria_antiguedad (Fin 180) = Some ''Nuevo'' \<and>
   segmento_gasto (Fin 500) = Some ''Bajo'' \<and>
   segmento_frecuencia (Fin 10) = Some ''Ocasional'' \<and>
   nivel_engagement (Fin 25) = Some ''Bajo'' \<and>
   categoria_ticket (Fin 50) = Some ''Bajo'' \<and>
   nivel_riesgo (Fin 0) = Some ''Bajo'' \<and> nivel_riesgo (Fin 2) = Some ''Medio''"
  by (simp add: segmento_gasto_def categoria_recencia_def categoria_antiguedad_def
      segmento_frecuencia_def nivel_engagement_def categoria_ticket_def nivel_riesgo_def
      BINS_GASTO_MENSUAL_def ETIQUETAS_GASTO_def BINS_FRECUENCIA_ENVIOS_def
      ETIQUETAS_FRECUENCIA_def)

text \<open>
  Claim C2 at the leftmost edge. Six of the seven features start their bins at 0
  and \<^verbatim>\<open>pd.cut\<close> leaves the first interval open on the left, so the value 0 (a
  spend that outlier correction set to 0, the recency of the most recent customer,
  a customer with no shipment) receives no label at all. The docstring of
  \<^verbatim>\<open>categorizar_monetary\<close> announces \<^verbatim>\<open>Bajo: < $500\<close>, and the risk bins start at
  \<open>-1\<close> so that their lowest value 0 is labelled.
\<close>

theorem borde_izquierdo_sin_etiqueta:
  "segmento_gasto (Fin 0) = None \<and> categoria_recencia (Fin 0) = None \<and>
   categoria_antiguedad (Fin 0) = None \<and> segmento_frecuencia (Fin 0) = None \<and>
   nivel_engagement (Fin 0) = None \<and> categoria_ticket (Fin 0) = None"
  by (simp add: segmento_gasto_def categoria_recencia_def categoria_antiguedad_def
      segmento_frecuencia_def nivel_engagement_def categoria_ticket_def
      BINS_GASTO_MENSUAL_def ETIQUETAS_GASTO_def BINS_FRECUENCIA_ENVIOS_def
      ETIQUETAS_FRECUENCIA_def)

subsection \<open>Engagement score\<close>

lemma series_max_Fin:
  assumes "\<forall>x\<in>set xs. \<exists>a. x = Fin a" and "xs \<noteq> []"
  shows "\<exists>m. series_max xs = Fin m \<and> Fin m \<in> set xs \<and> (\<forall>a. Fin a \<in> set xs \<longrightarrow> a \<le> m)"
  using assms
proof (induction xs)
  case Nil
  then show ?case by simp
next
  case (Cons x xs)
  obtain a where a: "x = Fin a" using Cons.prems by auto
  show ?case
  proof (cases "xs = []")
    case True
    then show ?thesis using a by (simp add: series_max_def)
  next
    case False
    then obtain m where m: "series_max xs = Fin m" "Fin m \<in> set xs"
        "\<forall>b. Fin b \<in> set xs \<longrightarrow> b \<le> m"
      using Cons by auto
    have "series_max (x # xs) = Fin (max a m)"
      using a m(1) by (simp add: series_max_def max_def)
    then show ?thesis using a m by (auto simp: max_def)
  qed
qed

lemma weighted_unit_lower:
  fixes x y z :: real
  assumes "0 \<le> x" "x \<le> 1" "0 \<le> y" "y \<le> 1" "0 \<le> z" "z \<le> 1"
  shows "0 \<le> 100 * (0.4 * (1 - x) + 0.3 * y + 0.3 * z)"
proof -
  have eq: "100 * (0.4 * (1 - x) + 0.3 * y + 0.3 * z) = 40 * (1 - x) + 30 * y + 30 * z"
    by (simp add: field_simps)
  show ?thesis unfolding eq using assms by argo
qed

lemma weighted_unit_upper:
  fixes x y z :: real
  assumes "0 \<le> x" "x \<le> 1" "0 \<le> y" "y \<le> 1" "0 \<le> z" "z \<le> 1"
  shows "100 * (0.4 * (1 - x) + 0.3 * y + 0.3 * z) \<le> 100"
proof -
  have eq: "100 * (0.4 * (1 - x) + 0.3 * y + 0.3 * z) = 40 * (1 - x) + 30 * y + 30 * z"
    by (simp add: field_simps)
  show ?thesis unfolding eq using assms by argo
qed

text \<open>
  The formula of the score, and its range, for a row of a batch whose three maxima
  are positive and whose values lie between 0 and the maxima.
\<close>

lemma engagement_fila_range:
  assumes "0 < mr" "0 < mf" "0 < mg"
      and "0 \<le> a" "a \<le> mr" "0 \<le> b" "b \<le> mf" "0 \<le> c" "c \<le> mg"
  shows "\<exists>s. engagement_fila (Fin mr) (Fin mf) (Fin mg)
            \<lparr>rfm_recencia_dias = Fin a, rfm_total_shipments = Fin b, rfm_monthly_spend = Fin c\<rparr>
            = Fin s
          \<and> s = 100 * (0.4 * (1 - a / mr) + 0.3 * (b / mf) + 0.3 * (c / mg))
          \<and> 0 \<le> s \<and> s \<le> 100"
proof -
  have r: "0 \<le> a / mr" "a / mr \<le> 1" using assms by (simp_all add: divide_le_eq)
  have f: "0 \<le> b / mf" "b / mf \<le> 1" using assms by (simp_all add: divide_le_eq)
  have g: "0 \<le> c / mg" "c / mg \<le> 1" using assms by (simp_all add: divide_le_eq)
  have e: "engagement_fila (Fin mr) (Fin mf) (Fin mg)
            \<lparr>rfm_recencia_dias = Fin a, rfm_total_shipments = Fin b, rfm_monthly_spend = Fin c\<rparr>
         = Fin (100 * (0.4 * (1 - a / mr) + 0.3 * (b / mf) + 0.3 * (c / mg)))"
    using assms(1-3) by (simp add: engagement_fila_def fsub_def algebra_simps)
  show ?thesis
    unfolding e using weighted_unit_lower[OF r f g] weighted_unit_upper[OF r f g] by blast
qed

text \<open>
  The scenario of the specification: recency 0 in a batch whose largest recency is
  100, no shipment and no spend among peers that have both. The score is 40.
\<close>

lemma engagement_escenario_40:
  "calcular_engagement_score
     [\<lparr>rfm_recencia_dias = Fin 0, rfm_total_shipments = Fin 0, rfm_monthly_spend = Fin 0\<rparr>,
      \<lparr>rfm_recencia_dias = Fin 100, rfm_total_shipments = Fin 10, rfm_monthly_spend = Fin 500\<rparr>]
   = [(Fin 40, Some ''Medio''), (Fin 60, Some ''Alto'')]"
  by (simp add: calcular_engagement_score_def series_max_def engagement_fila_def fsub_def
        inf_of_sign_def nivel_engagement_def)

text \<open>
  Claim C7 on a batch whose largest recency is 0, which is every batch whose
  customers share one last purchase date (a single customer, for one): the
  reference date is the latest purchase, the division \<open>0/0\<close> is not guarded, and the
  score is \<open>NaN\<close>, outside the range 0 to 100 that the docstring of
  \<^verbatim>\<open>calcular_engagement_score\<close> announces. The sibling function
  \<^verbatim>\<open>crear_features_comportamiento\<close> guards its divisions with \<^verbatim>\<open>replace(0, 1)\<close>.
\<close>

theorem engagement_recencia_max_cero:
  "calcular_engagement_score
     [\<lparr>rfm_recencia_dias = Fin 0, rfm_total_shipments = Fin 5, rfm_monthly_spend = Fin 100\<rparr>]
   = [(NaN, None)]"
  by (simp add: calcular_engagement_score_def series_max_def engagement_fila_def fsub_def
        inf_of_sign_def nivel_engagement_def)

section \<open>Anonymisation of one value (hashing.py)\<close>

text \<open>
  \<^verbatim>\<open>hashear_valor(valor, salt)\<close>. The value is a string or missing (\<^verbatim>\<open>None\<close> and
  \<^verbatim>\<open>NaN\<close> are both \<open>None\<close> here). SHA-256 is the library's: the function
  \<open>sha256_hex\<close> from the text to hash to the hexadecimal digest is a parameter.
  \<^verbatim>\<open>str.strip()\<close> removes the white space of Python at both ends; of the ASCII
  characters these are the codes 9 to 13 and 28 to 32.
\<close>

definition py_isspace :: "char \<Rightarrow> bool" where
  "py_isspace c = (let n = (of_char c :: nat) in (9 \<le> n \<and> n \<le> 13) \<or> (28 \<le> n \<and> n \<le> 32))"

definition strip :: "string \<Rightarrow> string" where
  "strip s = rev (dropWhile py_isspace (rev (dropWhile py_isspace s)))"

definition SALT_HASHING :: string where
  "SALT_HASHING = ''proyecto_churn_2025_salt_secreto''"

definition hashear_valor :: "(string \<Rightarrow> string) \<Rightarrow> string option \<Rightarrow> string \<Rightarrow> string" where
  "hashear_valor sha256_hex valor salt =
     (case valor of
        None \<Rightarrow> ''NULL''
      | Some v \<Rightarrow> if strip v = '''' then ''NULL'' else sha256_hex (salt @ v))"

lemma strip_all_space: "(\<forall>c\<in>set v. py_isspace c) \<Longrightarrow> strip v = ''''"
proof -
  assume "\<forall>c\<in>set v. py_isspace c"
  then have d: "dropWhile py_isspace v = []" by simp
  show ?thesis unfolding strip_def d by simp
qed

lemma strip_empty_iff: "strip v = '''' \<longleftrightarrow> (\<forall>c\<in>set v. py_isspace c)"
proof
  assume e: "strip v = ''''"
  show "\<forall>c\<in>set v. py_isspace c"
  proof (rule ccontr)
    assume "\<not> (\<forall>c\<in>set v. py_isspace c)"
    then have ne: "dropWhile py_isspace v \<noteq> []" by simp
    then have "\<not> py_isspace (hd (dropWhile py_isspace v))" by (rule hd_dropWhile)
    then have "\<not> py_isspace (last (rev (dropWhile py_isspace v)))"
      using ne by (simp add: last_rev)
    then have "dropWhile py_isspace (rev (dropWhile py_isspace v)) \<noteq> []"
      using ne by (metis dropWhile_eq_Nil_conv last_in_set rev_is_Nil_conv)
    then show False using e by (simp add: strip_def)
  qed
next
  assume "\<forall>c\<in>set v. py_isspace c"
  then show "strip v = ''''" by (rule strip_all_space)
qed

text \<open>
  Claim C9. Two runs of \<^verbatim>\<open>hashear_valor\<close> on the same value with the same salt
  return the same string; a missing value and a value of white space only return
  the marker \<^verbatim>\<open>NULL\<close> and not a hash.
\<close>

theorem hashear_valor_determinista:
  "(valor1 = valor2 \<and> salt1 = salt2 \<longrightarrow>
      hashear_valor sha256_hex valor1 salt1 = hashear_valor sha256_hex valor2 salt2) \<and>
   hashear_valor sha256_hex None salt = ''NULL'' \<and>
   ((\<forall>c\<in>set v. py_isspace c) \<longrightarrow> hashear_valor sha256_hex (Some v) salt = ''NULL'')"
  by (simp add: hashear_valor_def strip_all_space)

theorem hashear_valor_determinista_witness:
  "hashear_valor (\<lambda>s. ''#'' @ s) (Some ''a@b.c'') SALT_HASHING
     = hashear_valor (\<lambda>s. ''#'' @ s) (Some ''a@b.c'') SALT_HASHING \<and>
   hashear_valor (\<lambda>s. ''#'' @ s) None SALT_HASHING = ''NULL'' \<and>
   py_isspace (CHR '' '') \<and>
   hashear_valor (\<lambda>s. ''#'' @ s) (Some '' '') SALT_HASHING = ''NULL''"
  using hashear_valor_determinista
    [of "Some ''a@b.c''" "Some ''a@b.c''" SALT_HASHING SALT_HASHING "\<lambda>s. ''#'' @ s" SALT_HASHING "'' ''"]
  by (simp add: py_isspace_def)

section \<open>Tables of the cleaning layer\<close>

text \<open>
  A pandas \<^verbatim>\<open>DataFrame\<close> is a list of column names and a list of rows, each row
  holding one cell per column. A cell is missing (\<open>Null\<close> stands for \<^verbatim>\<open>None\<close>, \<^verbatim>\<open>NaN\<close>
  and \<^verbatim>\<open>NaT\<close>), a text, a number, a date (in whole days) or a truth value. The
  bronze layer holds texts and missing cells only; the stages turn texts into dates
  and numbers. Numbers of this layer are finite reals: infinities are not modelled
  here. The exceptions the stages can raise are values of \<open>error\<close>.
\<close>

datatype cell = Null | Str string | Num real | Date int | Bool bool

datatype error = KeyError | TypeError

record table =
  columns :: "string list"
  rows :: "cell list list"

text \<open>The invariant of a data frame: distinct column names, one cell per column.\<close>

definition wf_table :: "table \<Rightarrow> bool" where
  "wf_table df = (distinct (columns df) \<and> list_all (\<lambda>r. length r = length (columns df)) (rows df))"

text \<open>
  \<^verbatim>\<open>df[c]\<close> reads a column and \<^verbatim>\<open>df[c] = values\<close> writes it: an existing column is
  replaced where it stands, a new one is appended. \<^verbatim>\<open>df.drop(columns=[c])\<close> removes it.
\<close>

definition col_pos :: "table \<Rightarrow> string \<Rightarrow> nat" where
  "col_pos df c = length (takeWhile (\<lambda>n. n \<noteq> c) (columns df))"

definition get_col :: "table \<Rightarrow> string \<Rightarrow> cell list" where
  "get_col df c = map (\<lambda>r. r ! col_pos df c) (rows df)"

definition set_col :: "table \<Rightarrow> string \<Rightarrow> cell list \<Rightarrow> table" where
  "set_col df c vs =
     (if c \<in> set (columns df)
      then df\<lparr>rows := map (\<lambda>(r, v). r[col_pos df c := v]) (zip (rows df) vs)\<rparr>
      else df\<lparr>columns := columns df @ [c],
              rows := map (\<lambda>(r, v). r @ [v]) (zip (rows df) vs)\<rparr>)"

definition drop_nth :: "nat \<Rightarrow> 'a list \<Rightarrow> 'a list" where
  "drop_nth i xs = take i xs @ drop (Suc i) xs"

definition drop_col :: "table \<Rightarrow> string \<Rightarrow> table" where
  "drop_col df c =
     (if c \<in> set (columns df)
      then df\<lparr>columns := drop_nth (col_pos df c) (columns df),
              rows := map (drop_nth (col_pos df c)) (rows df)\<rparr>
      else df)"

lemma pos_lt: "c \<in> set cs \<Longrightarrow> length (takeWhile (\<lambda>n. n \<noteq> c) cs) < length cs"
  by (induction cs) auto

lemma pos_nth: "c \<in> set cs \<Longrightarrow> cs ! length (takeWhile (\<lambda>n. n \<noteq> c) cs) = c"
  by (induction cs) auto

lemma col_pos_lt: "c \<in> set (columns df) \<Longrightarrow> col_pos df c < length (columns df)"
  by (simp add: col_pos_def pos_lt)

lemma col_pos_nth: "c \<in> set (columns df) \<Longrightarrow> columns df ! col_pos df c = c"
  by (simp add: col_pos_def pos_nth)

lemma col_pos_inj:
  "c \<in> set (columns df) \<Longrightarrow> c' \<in> set (columns df) \<Longrightarrow> col_pos df c = col_pos df c' \<Longrightarrow> c = c'"
  by (metis col_pos_nth)

lemma length_get_col [simp]: "length (get_col df c) = length (rows df)"
  by (simp add: get_col_def)

lemma columns_set_col_present:
  "c \<in> set (columns df) \<Longrightarrow> columns (set_col df c vs) = columns df"
  by (simp add: set_col_def)

lemma rows_set_col_present:
  "c \<in> set (columns df) \<Longrightarrow>
   rows (set_col df c vs) = map (\<lambda>(r, v). r[col_pos df c := v]) (zip (rows df) vs)"
  by (simp add: set_col_def)

lemma col_pos_set_col:
  "c \<in> set (columns df) \<Longrightarrow> col_pos (set_col df c vs) c' = col_pos df c'"
  by (simp add: col_pos_def set_col_def)

lemma wf_set_col:
  "wf_table df \<Longrightarrow> c \<in> set (columns df) \<Longrightarrow> wf_table (set_col df c vs)"
  by (auto simp: wf_table_def set_col_def list_all_iff dest!: set_zip_leftD)

lemma get_col_set_col_same:
  assumes "wf_table df" "c \<in> set (columns df)" "length vs = length (rows df)"
  shows "get_col (set_col df c vs) c = vs"
proof (rule nth_equalityI)
  show "length (get_col (set_col df c vs) c) = length vs"
    using assms by (simp add: rows_set_col_present)
next
  fix i assume "i < length (get_col (set_col df c vs) c)"
  then have i: "i < length (rows df)" using assms by (simp add: rows_set_col_present)
  then have "length (rows df ! i) = length (columns df)"
    using assms(1) by (simp add: wf_table_def list_all_length)
  then show "get_col (set_col df c vs) c ! i = vs ! i"
    using assms i col_pos_lt[OF assms(2)]
    by (simp add: get_col_def rows_set_col_present col_pos_set_col)
qed

lemma get_col_set_col_other:
  assumes "c \<in> set (columns df)" "c' \<in> set (columns df)" "c \<noteq> c'"
      and "length vs = length (rows df)"
  shows "get_col (set_col df c vs) c' = get_col df c'"
proof (rule nth_equalityI)
  show "length (get_col (set_col df c vs) c') = length (get_col df c')"
    using assms by (simp add: rows_set_col_present)
next
  fix i assume "i < length (get_col (set_col df c vs) c')"
  then have i: "i < length (rows df)" using assms by (simp add: rows_set_col_present)
  have "col_pos df c \<noteq> col_pos df c'" using assms col_pos_inj by blast
  then show "get_col (set_col df c vs) c' ! i = get_col df c' ! i"
    using assms i by (simp add: get_col_def rows_set_col_present col_pos_set_col)
qed

lemma set_col_commute:
  assumes "c \<in> set (columns df)" "c' \<in> set (columns df)" "c \<noteq> c'"
      and "length vs = length (rows df)" "length vs' = length (rows df)"
  shows "set_col (set_col df c vs) c' vs' = set_col (set_col df c' vs') c vs"
proof -
  have ne: "col_pos df c \<noteq> col_pos df c'" using assms col_pos_inj by blast
  have "rows (set_col (set_col df c vs) c' vs') = rows (set_col (set_col df c' vs') c vs)"
  proof (rule nth_equalityI)
    show "length (rows (set_col (set_col df c vs) c' vs')) = length (rows (set_col (set_col df c' vs') c vs))"
      using assms by (simp add: rows_set_col_present columns_set_col_present)
  next
    fix i assume "i < length (rows (set_col (set_col df c vs) c' vs'))"
    then have i: "i < length (rows df)"
      using assms by (simp add: rows_set_col_present columns_set_col_present)
    show "rows (set_col (set_col df c vs) c' vs') ! i = rows (set_col (set_col df c' vs') c vs) ! i"
      using assms i ne
      by (simp add: rows_set_col_present columns_set_col_present col_pos_set_col list_update_swap)
  qed
  then show ?thesis
    using assms by (simp add: set_col_def)
qed


section \<open>Outlier correction (limpieza.py)\<close>

text \<open>
  A comparison of a column with a number raises \<^verbatim>\<open>TypeError\<close> on a text or a date;
  on a missing cell it is false, and a truth value compares as 0 or 1.
  \<^verbatim>\<open>df.loc[cond, c] = v\<close> is \<open>loc_set\<close>. \<^verbatim>\<open>corregir_outliers\<close> has code for the method
  \<^verbatim>\<open>cap\<close> only; with any other method it returns the table as it is.
\<close>

fun num_of_cell :: "cell \<Rightarrow> real option" where
  "num_of_cell (Num v) = Some v"
| "num_of_cell (Bool b) = Some (if b then 1 else 0)"
| "num_of_cell _ = None"

fun es_numerica :: "cell \<Rightarrow> bool" where
  "es_numerica (Str _) = False"
| "es_numerica (Date _) = False"
| "es_numerica _ = True"

definition cell_lt :: "cell \<Rightarrow> real \<Rightarrow> bool" where
  "cell_lt c x = (case num_of_cell c of Some v \<Rightarrow> v < x | None \<Rightarrow> False)"

definition cell_gt :: "cell \<Rightarrow> real \<Rightarrow> bool" where
  "cell_gt c x = (case num_of_cell c of Some v \<Rightarrow> x < v | None \<Rightarrow> False)"

definition UMBRAL_GASTO_MINIMO :: real where "UMBRAL_GASTO_MINIMO = 0"
definition UMBRAL_GASTO_MAXIMO :: real where "UMBRAL_GASTO_MAXIMO = 15000"
definition UMBRAL_ENVIOS_MAXIMO :: real where "UMBRAL_ENVIOS_MAXIMO = 500"

definition loc_set :: "table \<Rightarrow> string \<Rightarrow> (cell \<Rightarrow> bool) \<Rightarrow> cell \<Rightarrow> table" where
  "loc_set df columna sel v =
     set_col df columna (map (\<lambda>c. if sel c then v else c) (get_col df columna))"

definition corregir_outliers :: "table \<Rightarrow> string \<Rightarrow> string \<Rightarrow> error + table" where
  "corregir_outliers df columna metodo =
     (if columna \<notin> set (columns df) then Inr df
      else if metodo = ''cap'' then
        (if columna = ''monthly_spend'' then
           (if \<not> list_all es_numerica (get_col df columna) then Inl TypeError
            else
              let df1 = (if list_ex (\<lambda>c. cell_lt c 0) (get_col df columna)
                         then loc_set df columna (\<lambda>c. cell_lt c 0) (Num 0) else df);
                  df2 = (if list_ex (\<lambda>c. cell_gt c UMBRAL_GASTO_MAXIMO) (get_col df1 columna)
                         then loc_set df1 columna (\<lambda>c. cell_gt c UMBRAL_GASTO_MAXIMO)
                                (Num UMBRAL_GASTO_MAXIMO)
                         else df1)
              in Inr df2)
         else if columna = ''total_shipments'' then
           (if \<not> list_all es_numerica (get_col df columna) then Inl TypeError
            else Inr (if list_ex (\<lambda>c. cell_gt c UMBRAL_ENVIOS_MAXIMO) (get_col df columna)
                      then loc_set df columna (\<lambda>c. cell_gt c UMBRAL_ENVIOS_MAXIMO)
                             (Num UMBRAL_ENVIOS_MAXIMO)
                      else df))
         else Inr df)
      else Inr df)"

text \<open>What the cap does to one cell.\<close>

definition cap_gasto :: "cell \<Rightarrow> cell" where
  "cap_gasto c = (if cell_lt c 0 then Num 0
                  else if cell_gt c UMBRAL_GASTO_MAXIMO then Num UMBRAL_GASTO_MAXIMO else c)"

definition cap_envios :: "cell \<Rightarrow> cell" where
  "cap_envios c = (if cell_gt c UMBRAL_ENVIOS_MAXIMO then Num UMBRAL_ENVIOS_MAXIMO else c)"

definition gasto_en_rango :: "cell \<Rightarrow> bool" where
  "gasto_en_rango c =
     (case num_of_cell c of Some v \<Rightarrow> 0 \<le> v \<and> v \<le> UMBRAL_GASTO_MAXIMO | None \<Rightarrow> c = Null)"

definition envios_en_rango :: "cell \<Rightarrow> bool" where
  "envios_en_rango c =
     (case num_of_cell c of Some v \<Rightarrow> v \<le> UMBRAL_ENVIOS_MAXIMO | None \<Rightarrow> c = Null)"

lemma set_col_get_col_id:
  assumes "wf_table df" "c \<in> set (columns df)"
  shows "set_col df c (get_col df c) = df"
proof -
  have "map (\<lambda>(r, v). r[col_pos df c := v]) (zip (rows df) (get_col df c)) = rows df"
    by (rule nth_equalityI) (simp_all add: get_col_def)
  then show ?thesis using assms by (simp add: set_col_def)
qed

lemma loc_set_noop:
  assumes "wf_table df" "c \<in> set (columns df)" "\<not> list_ex sel (get_col df c)"
  shows "loc_set df c sel v = df"
proof -
  have "map (\<lambda>x. if sel x then v else x) (get_col df c) = get_col df c"
    using assms(3) by (simp add: list_ex_iff map_idI)
  then show ?thesis using assms by (simp add: loc_set_def set_col_get_col_id)
qed

lemma loc_set_facts:
  assumes "wf_table df" "c \<in> set (columns df)"
  shows "wf_table (loc_set df c sel v)"
    and "columns (loc_set df c sel v) = columns df"
    and "get_col (loc_set df c sel v) c = map (\<lambda>x. if sel x then v else x) (get_col df c)"
    and "length (rows (loc_set df c sel v)) = length (rows df)"
    and "c' \<in> set (columns df) \<Longrightarrow> c' \<noteq> c \<Longrightarrow> get_col (loc_set df c sel v) c' = get_col df c'"
  using assms
  by (simp_all add: loc_set_def wf_set_col columns_set_col_present get_col_set_col_same
        get_col_set_col_other rows_set_col_present)

text \<open>A guarded assignment is the assignment: with no cell to change it changes nothing.\<close>

lemma guarded_loc_set:
  assumes "wf_table df" "c \<in> set (columns df)"
  shows "(if list_ex sel (get_col df c) then loc_set df c sel v else df) = loc_set df c sel v"
  using assms by (simp add: loc_set_noop)

lemma corregir_gasto_eq:
  assumes "wf_table df" "''monthly_spend'' \<in> set (columns df)"
      and "list_all es_numerica (get_col df ''monthly_spend'')"
  shows "corregir_outliers df ''monthly_spend'' ''cap'' =
           Inr (loc_set (loc_set df ''monthly_spend'' (\<lambda>c. cell_lt c 0) (Num 0)) ''monthly_spend''
                  (\<lambda>c. cell_gt c UMBRAL_GASTO_MAXIMO) (Num UMBRAL_GASTO_MAXIMO))"
proof -
  let ?df1 = "loc_set df ''monthly_spend'' (\<lambda>c. cell_lt c 0) (Num 0)"
  have 1: "(if list_ex (\<lambda>c. cell_lt c 0) (get_col df ''monthly_spend'')
            then ?df1 else df) = ?df1"
    using assms(1,2) by (rule guarded_loc_set)
  have w: "wf_table ?df1" "''monthly_spend'' \<in> set (columns ?df1)"
    using assms loc_set_facts(1,2) by simp_all
  have 2: "(if list_ex (\<lambda>c. cell_gt c UMBRAL_GASTO_MAXIMO) (get_col ?df1 ''monthly_spend'')
            then loc_set ?df1 ''monthly_spend'' (\<lambda>c. cell_gt c UMBRAL_GASTO_MAXIMO) (Num UMBRAL_GASTO_MAXIMO)
            else ?df1)
           = loc_set ?df1 ''monthly_spend'' (\<lambda>c. cell_gt c UMBRAL_GASTO_MAXIMO) (Num UMBRAL_GASTO_MAXIMO)"
    using w by (rule guarded_loc_set)
  show ?thesis
    unfolding corregir_outliers_def Let_def 1 2 using assms(2,3) by simp
qed

lemma corregir_envios_eq:
  assumes "wf_table df" "''total_shipments'' \<in> set (columns df)"
      and "list_all es_numerica (get_col df ''total_shipments'')"
  shows "corregir_outliers df ''total_shipments'' ''cap'' =
           Inr (loc_set df ''total_shipments''
                  (\<lambda>c. cell_gt c UMBRAL_ENVIOS_MAXIMO) (Num UMBRAL_ENVIOS_MAXIMO))"
proof -
  have 1: "(if list_ex (\<lambda>c. cell_gt c UMBRAL_ENVIOS_MAXIMO) (get_col df ''total_shipments'')
            then loc_set df ''total_shipments'' (\<lambda>c. cell_gt c UMBRAL_ENVIOS_MAXIMO) (Num UMBRAL_ENVIOS_MAXIMO)
            else df)
           = loc_set df ''total_shipments'' (\<lambda>c. cell_gt c UMBRAL_ENVIOS_MAXIMO) (Num UMBRAL_ENVIOS_MAXIMO)"
    using assms(1,2) by (rule guarded_loc_set)
  show ?thesis
    unfolding corregir_outliers_def 1 using assms(2,3) by simp
qed

lemma cap_gasto_en_rango: "es_numerica c \<Longrightarrow> gasto_en_rango (cap_gasto c)"
  by (cases c) (auto simp: gasto_en_rango_def cap_gasto_def cell_lt_def cell_gt_def UMBRAL_GASTO_MAXIMO_def)

lemma cap_envios_en_rango: "es_numerica c \<Longrightarrow> envios_en_rango (cap_envios c)"
  by (cases c) (auto simp: envios_en_rango_def cap_envios_def cell_gt_def UMBRAL_ENVIOS_MAXIMO_def)

lemma cap_gasto_as_two_steps:
  "(\<lambda>x. if cell_gt x UMBRAL_GASTO_MAXIMO then Num UMBRAL_GASTO_MAXIMO else x)
     ((\<lambda>x. if cell_lt x 0 then Num 0 else x) c) = cap_gasto c"
  by (cases c) (auto simp: cap_gasto_def cell_lt_def cell_gt_def UMBRAL_GASTO_MAXIMO_def)


text \<open>
  Claim C8. On a table whose spend and shipment columns are numeric, the two calls of
  the pipeline (\<^verbatim>\<open>cap\<close> on \<^verbatim>\<open>monthly_spend\<close>, then on \<^verbatim>\<open>total_shipments\<close>) succeed;
  afterwards every spend is the capped spend (a negative one is 0, one above 15000 is
  15000) and lies in [0, 15000], and every shipment count is the capped count and is
  at most 500. Missing cells stay missing.
\<close>

theorem corregir_outliers_cap:
  assumes "wf_table df"
      and "''monthly_spend'' \<in> set (columns df)" and "''total_shipments'' \<in> set (columns df)"
      and "list_all es_numerica (get_col df ''monthly_spend'')"
      and "list_all es_numerica (get_col df ''total_shipments'')"
  shows "\<exists>df1 df2.
           corregir_outliers df ''monthly_spend'' ''cap'' = Inr df1 \<and>
           corregir_outliers df1 ''total_shipments'' ''cap'' = Inr df2 \<and>
           get_col df2 ''monthly_spend'' = map cap_gasto (get_col df ''monthly_spend'') \<and>
           get_col df2 ''total_shipments'' = map cap_envios (get_col df ''total_shipments'') \<and>
           list_all gasto_en_rango (get_col df2 ''monthly_spend'') \<and>
           list_all envios_en_rango (get_col df2 ''total_shipments'')"
proof -
  let ?g = "''monthly_spend''" and ?e = "''total_shipments''"
  let ?d0 = "loc_set df ?g (\<lambda>c. cell_lt c 0) (Num 0)"
  let ?df1 = "loc_set ?d0 ?g (\<lambda>c. cell_gt c UMBRAL_GASTO_MAXIMO) (Num UMBRAL_GASTO_MAXIMO)"
  let ?df2 = "loc_set ?df1 ?e (\<lambda>c. cell_gt c UMBRAL_ENVIOS_MAXIMO) (Num UMBRAL_ENVIOS_MAXIMO)"
  have ne: "?e \<noteq> ?g" by simp
  have w0: "wf_table ?d0" "columns ?d0 = columns df"
    using assms(1,2) by (simp_all add: loc_set_facts)
  have w1: "wf_table ?df1" "columns ?df1 = columns df"
    using w0 assms(2) by (simp_all add: loc_set_facts)
  have g0: "get_col ?d0 ?g = map (\<lambda>x. if cell_lt x 0 then Num 0 else x) (get_col df ?g)"
    using assms(1,2) by (simp add: loc_set_facts)
  have g1: "get_col ?df1 ?g = map cap_gasto (get_col df ?g)"
    using w0 assms(2) by (simp add: loc_set_facts g0 cap_gasto_as_two_steps)
  have e0: "get_col ?d0 ?e = get_col df ?e"
    using assms(1,2,3) ne by (simp add: loc_set_facts(5))
  have e1: "get_col ?df1 ?e = get_col df ?e"
    using w0 assms(2,3) ne by (simp add: loc_set_facts(5) e0)
  have s1: "corregir_outliers df ?g ''cap'' = Inr ?df1"
    using assms(1,2,4) by (rule corregir_gasto_eq)
  have s2: "corregir_outliers ?df1 ?e ''cap'' = Inr ?df2"
    using w1 assms(3,5) e1 by (intro corregir_envios_eq) simp_all
  have g2: "get_col ?df2 ?g = map cap_gasto (get_col df ?g)"
    using w1 assms(2,3) ne by (simp add: loc_set_facts(5) g1)
  have e2: "get_col ?df2 ?e = map cap_envios (get_col df ?e)"
    using w1 assms(3) by (simp add: loc_set_facts(3) e1 cap_envios_def)
  have rg: "list_all gasto_en_rango (get_col ?df2 ?g)"
    unfolding g2 using assms(4) by (simp add: list_all_iff cap_gasto_en_rango)
  have re: "list_all envios_en_rango (get_col ?df2 ?e)"
    unfolding e2 using assms(5) by (simp add: list_all_iff cap_envios_en_rango)
  show ?thesis using s1 s2 g2 e2 rg re by blast
qed

definition tabla_outliers :: table where
  "tabla_outliers =
     \<lparr>columns = [''customer_id'', ''monthly_spend'', ''total_shipments''],
      rows = [[Str ''C002'', Num (- 50), Num 15],
              [Str ''C003'', Num 99999, Num 1000],
              [Str ''C004'', Null, Num 45]]\<rparr>"

theorem corregir_outliers_cap_witness:
  "wf_table tabla_outliers \<and>
   list_all es_numerica (get_col tabla_outliers ''monthly_spend'') \<and>
   list_all es_numerica (get_col tabla_outliers ''total_shipments'') \<and>
   (\<exists>df1 df2.
      corregir_outliers tabla_outliers ''monthly_spend'' ''cap'' = Inr df1 \<and>
      corregir_outliers df1 ''total_shipments'' ''cap'' = Inr df2 \<and>
      get_col df2 ''monthly_spend'' = [Num 0, Num 15000, Null] \<and>
      get_col df2 ''total_shipments'' = [Num 15, Num 500, Num 45] \<and>
      list_all gasto_en_rango (get_col df2 ''monthly_spend'') \<and>
      list_all envios_en_rango (get_col df2 ''total_shipments''))"
proof -
  have w: "wf_table tabla_outliers"
    by (simp add: wf_table_def tabla_outliers_def)
  have c: "''monthly_spend'' \<in> set (columns tabla_outliers)"
      "''total_shipments'' \<in> set (columns tabla_outliers)"
    by (simp_all add: tabla_outliers_def)
  have g: "get_col tabla_outliers ''monthly_spend'' = [Num (- 50), Num 99999, Null]"
    by (simp add: get_col_def col_pos_def tabla_outliers_def)
  have e: "get_col tabla_outliers ''total_shipments'' = [Num 15, Num 1000, Num 45]"
    by (simp add: get_col_def col_pos_def tabla_outliers_def)
  have n: "list_all es_numerica (get_col tabla_outliers ''monthly_spend'')"
      "list_all es_numerica (get_col tabla_outliers ''total_shipments'')"
    by (simp_all add: g e)
  show ?thesis
    using corregir_outliers_cap [OF w c n] w n
    by (simp add: g e cap_gasto_def cap_envios_def cell_lt_def cell_gt_def
          UMBRAL_GASTO_MAXIMO_def UMBRAL_ENVIOS_MAXIMO_def)
qed

section \<open>Null handling (limpieza.py)\<close>

text \<open>
  \<^verbatim>\<open>fillna(v)\<close> replaces the missing cells of a column, \<^verbatim>\<open>fillna(method='ffill')\<close>
  gives a missing cell the last value seen above it (none above the first row),
  \<^verbatim>\<open>median()\<close> skips missing cells and raises on a text or a date, and
  \<^verbatim>\<open>dropna(subset=[c])\<close> removes the rows whose cell in \<open>c\<close> is missing.
\<close>

definition fillna :: "cell \<Rightarrow> cell list \<Rightarrow> cell list" where
  "fillna v cs = map (\<lambda>c. if c = Null then v else c) cs"

fun ffill_desde :: "cell \<Rightarrow> cell list \<Rightarrow> cell list" where
  "ffill_desde prev [] = []"
| "ffill_desde prev (c # cs) =
     (if c = Null then prev # ffill_desde prev cs else c # ffill_desde c cs)"

definition ffill :: "cell list \<Rightarrow> cell list" where
  "ffill cs = ffill_desde Null cs"

definition valor_num :: "cell \<Rightarrow> real" where
  "valor_num c = (case num_of_cell c of Some v \<Rightarrow> v | None \<Rightarrow> 0)"

definition median_reals :: "real list \<Rightarrow> cell" where
  "median_reals vs =
     (let s = sort vs; n = length s
      in if n = 0 then Null
         else if odd n then Num (s ! (n div 2))
         else Num ((s ! (n div 2 - 1) + s ! (n div 2)) / 2))"

definition series_median :: "cell list \<Rightarrow> error + cell" where
  "series_median cs =
     (let vals = filter (\<lambda>c. c \<noteq> Null) cs
      in if list_all es_numerica vals then Inr (median_reals (map valor_num vals))
         else Inl TypeError)"

definition dropna :: "table \<Rightarrow> string \<Rightarrow> table" where
  "dropna df c = df\<lparr>rows := filter (\<lambda>r. r ! col_pos df c \<noteq> Null) (rows df)\<rparr>"

text \<open>
  The strategies of the configured dictionary \<^verbatim>\<open>ESTRATEGIA_NULOS\<close>, in its order
  (a Python dictionary iterates in insertion order). The strategies \<^verbatim>\<open>media\<close> and
  \<^verbatim>\<open>moda\<close>, which the configuration does not use, are not modelled.
\<close>

datatype estrategia = MISSING | Mediana | Ffill | Eliminar

definition ESTRATEGIA_NULOS :: "(string \<times> estrategia) list" where
  "ESTRATEGIA_NULOS =
     [(''phone'', MISSING),
      (''monthly_spend'', Mediana),
      (''total_shipments'', Mediana),
      (''last_purchase_date'', Ffill),
      (''churn_label'', Eliminar)]"

text \<open>
  One turn of the loop of \<^verbatim>\<open>manejar_valores_nulos\<close>: a column that is absent or has
  no missing cell is skipped before anything is computed.
\<close>

definition aplicar_estrategia :: "table \<Rightarrow> string \<Rightarrow> estrategia \<Rightarrow> error + table" where
  "aplicar_estrategia df columna e =
     (if columna \<notin> set (columns df) then Inr df
      else if Null \<notin> set (get_col df columna) then Inr df
      else (case e of
              MISSING \<Rightarrow> Inr (set_col df columna (fillna (Str ''MISSING'') (get_col df columna)))
            | Mediana \<Rightarrow>
                (case series_median (get_col df columna) of
                   Inl err \<Rightarrow> Inl err
                 | Inr mediana \<Rightarrow> Inr (set_col df columna (fillna mediana (get_col df columna))))
            | Ffill \<Rightarrow> Inr (set_col df columna (ffill (get_col df columna)))
            | Eliminar \<Rightarrow> Inr (dropna df columna)))"

fun manejar_valores_nulos :: "table \<Rightarrow> (string \<times> estrategia) list \<Rightarrow> error + table" where
  "manejar_valores_nulos df [] = Inr df"
| "manejar_valores_nulos df ((columna, e) # es) =
     (case aplicar_estrategia df columna e of
        Inl err \<Rightarrow> Inl err
      | Inr df' \<Rightarrow> manejar_valores_nulos df' es)"


subsection \<open>Facts about the strategies\<close>

lemma length_fillna [simp]: "length (fillna v cs) = length cs"
  by (simp add: fillna_def)

lemma length_ffill_desde [simp]: "length (ffill_desde p cs) = length cs"
  by (induction cs arbitrary: p) auto

lemma length_ffill [simp]: "length (ffill cs) = length cs"
  by (simp add: ffill_def)

lemma ffill_desde_no_null: "Null \<notin> set cs \<Longrightarrow> ffill_desde p cs = cs"
  by (induction cs arbitrary: p) auto

lemma ffill_no_null: "Null \<notin> set cs \<Longrightarrow> ffill cs = cs"
  by (simp add: ffill_def ffill_desde_no_null)

lemma fillna_no_null: "Null \<notin> set cs \<Longrightarrow> fillna v cs = cs"
  by (induction cs) (auto simp: fillna_def)

lemma wf_dropna: "wf_table df \<Longrightarrow> wf_table (dropna df c)"
  by (simp add: wf_table_def dropna_def list_all_iff)

lemma columns_dropna [simp]: "columns (dropna df c) = columns df"
  by (simp add: dropna_def)

lemma col_pos_dropna [simp]: "col_pos (dropna df c) c' = col_pos df c'"
  by (simp add: col_pos_def)

lemma filter_map_pairs:
  "map f (filter (\<lambda>r. g r \<noteq> Null) xs) =
   map fst (filter (\<lambda>p. snd p \<noteq> Null) (zip (map f xs) (map g xs)))"
proof (induction xs)
  case Nil
  show ?case by simp
next
  case (Cons x xs)
  show ?case
  proof (cases "g x = Null")
    case True
    then show ?thesis using Cons.IH by simp
  next
    case False
    then show ?thesis using Cons.IH by simp
  qed
qed

lemma get_col_dropna:
  "get_col (dropna df c) c' =
   map fst (filter (\<lambda>p. snd p \<noteq> Null) (zip (get_col df c') (get_col df c)))"
proof -
  have "get_col (dropna df c) c' =
        map (\<lambda>r. r ! col_pos df c') (filter (\<lambda>r. r ! col_pos df c \<noteq> Null) (rows df))"
    unfolding get_col_def col_pos_dropna by (simp add: dropna_def)
  also have "\<dots> = map fst (filter (\<lambda>p. snd p \<noteq> Null)
                 (zip (map (\<lambda>r. r ! col_pos df c') (rows df)) (map (\<lambda>r. r ! col_pos df c) (rows df))))"
    by (rule filter_map_pairs)
  finally show ?thesis unfolding get_col_def .
qed

lemma dropna_no_null: "Null \<notin> set (get_col df c) \<Longrightarrow> dropna df c = df"
proof -
  assume n: "Null \<notin> set (get_col df c)"
  have "\<forall>r\<in>set (rows df). r ! col_pos df c \<noteq> Null"
  proof
    fix r assume "r \<in> set (rows df)"
    then have "r ! col_pos df c \<in> set (get_col df c)" by (simp add: get_col_def)
    then show "r ! col_pos df c \<noteq> Null" using n by auto
  qed
  then have "filter (\<lambda>r. r ! col_pos df c \<noteq> Null) (rows df) = rows df"
    by (simp add: filter_id_conv)
  then show ?thesis by (simp add: dropna_def)
qed

lemma aplicar_eliminar:
  "c \<in> set (columns df) \<Longrightarrow> aplicar_estrategia df c Eliminar = Inr (dropna df c)"
proof (cases "Null \<in> set (get_col df c)")
  case True
  assume "c \<in> set (columns df)"
  then show ?thesis using True by (simp add: aplicar_estrategia_def)
next
  case False
  assume "c \<in> set (columns df)"
  then show ?thesis using False dropna_no_null[OF False] by (simp add: aplicar_estrategia_def)
qed

text \<open>The column a filling strategy writes, as a function of the column it reads.\<close>

definition relleno :: "estrategia \<Rightarrow> cell list \<Rightarrow> error + cell list" where
  "relleno e cs =
     (case e of
        MISSING \<Rightarrow> Inr (fillna (Str ''MISSING'') cs)
      | Mediana \<Rightarrow> (if Null \<notin> set cs then Inr cs
                    else case series_median cs of Inl err \<Rightarrow> Inl err | Inr m \<Rightarrow> Inr (fillna m cs))
      | Ffill \<Rightarrow> Inr (ffill cs)
      | Eliminar \<Rightarrow> Inr cs)"

lemma length_relleno: "relleno e cs = Inr vs \<Longrightarrow> length vs = length cs"
  by (auto simp: relleno_def split: estrategia.splits sum.splits if_splits)

lemma aplicar_relleno:
  assumes "wf_table df" "c \<in> set (columns df)" "e \<noteq> Eliminar"
  shows "aplicar_estrategia df c e =
           (case relleno e (get_col df c) of Inl err \<Rightarrow> Inl err | Inr vs \<Rightarrow> Inr (set_col df c vs))"
proof (cases "Null \<in> set (get_col df c)")
  case True
  show ?thesis
  proof (cases e)
    case MISSING
    then show ?thesis using True assms(2) by (simp add: aplicar_estrategia_def relleno_def)
  next
    case Mediana
    then show ?thesis using True assms(2)
      by (simp add: aplicar_estrategia_def relleno_def split: sum.split)
  next
    case Ffill
    then show ?thesis using True assms(2) by (simp add: aplicar_estrategia_def relleno_def)
  next
    case Eliminar
    then show ?thesis using assms(3) by simp
  qed
next
  case False
  then have "relleno e (get_col df c) = Inr (get_col df c)"
    using assms(3) by (cases e) (simp_all add: relleno_def fillna_no_null ffill_no_null)
  then show ?thesis
    using False assms by (simp add: aplicar_estrategia_def set_col_get_col_id)
qed

lemma aplicar_relleno_cases:
  assumes "wf_table df" "e \<noteq> Eliminar" "aplicar_estrategia df c e = Inr df'"
  obtains (ausente) "c \<notin> set (columns df)" "df' = df"
        | (presente) vs where "c \<in> set (columns df)" "relleno e (get_col df c) = Inr vs"
            "df' = set_col df c vs" "length vs = length (rows df)"
proof (cases "c \<in> set (columns df)")
  case False
  then have "df' = df" using assms(3) by (simp add: aplicar_estrategia_def)
  then show ?thesis using False ausente by blast
next
  case True
  have eq: "(case relleno e (get_col df c) of Inl err \<Rightarrow> Inl err
              | Inr vs \<Rightarrow> Inr (set_col df c vs)) = Inr df'"
    using aplicar_relleno[OF assms(1) True assms(2)] assms(3) by simp
  then obtain vs where vs: "relleno e (get_col df c) = Inr vs" "df' = set_col df c vs"
    by (cases "relleno e (get_col df c)") auto
  have "length vs = length (get_col df c)" using vs(1) by (rule length_relleno)
  then have "length vs = length (rows df)" by simp
  then show ?thesis using True vs presente by blast
qed

lemma aplicar_relleno_wf:
  assumes "wf_table df" "e \<noteq> Eliminar" "aplicar_estrategia df c e = Inr df'"
  shows "wf_table df'"
  using assms
proof (cases rule: aplicar_relleno_cases)
  case ausente
  then show ?thesis using assms(1) by simp
next
  case (presente vs)
  then show ?thesis using assms(1) by (simp add: wf_set_col)
qed

lemma aplicar_relleno_columns:
  assumes "wf_table df" "e \<noteq> Eliminar" "aplicar_estrategia df c e = Inr df'"
  shows "columns df' = columns df"
  using assms
proof (cases rule: aplicar_relleno_cases)
  case ausente
  then show ?thesis using assms(1) by simp
next
  case (presente vs)
  then show ?thesis using assms(1) by (simp add: columns_set_col_present)
qed

lemma aplicar_relleno_length:
  assumes "wf_table df" "e \<noteq> Eliminar" "aplicar_estrategia df c e = Inr df'"
  shows "length (rows df') = length (rows df)"
  using assms
proof (cases rule: aplicar_relleno_cases)
  case ausente
  then show ?thesis using assms(1) by simp
next
  case (presente vs)
  then show ?thesis using assms(1) by (simp add: rows_set_col_present)
qed

lemma aplicar_relleno_other:
  assumes "wf_table df" "e \<noteq> Eliminar" "aplicar_estrategia df c e = Inr df'"
      and "c' \<in> set (columns df)" "c' \<noteq> c"
  shows "get_col df' c' = get_col df c'"
  using assms(1-3)
proof (cases rule: aplicar_relleno_cases)
  case ausente
  then show ?thesis by simp
next
  case (presente vs)
  then show ?thesis using assms(4,5) by (simp add: get_col_set_col_other)
qed

lemma aplicar_relleno_same:
  assumes "wf_table df" "e \<noteq> Eliminar" "aplicar_estrategia df c e = Inr df'"
      and "c \<in> set (columns df)"
  shows "relleno e (get_col df c) = Inr (get_col df' c)"
  using assms(1-3)
proof (cases rule: aplicar_relleno_cases)
  case ausente
  then show ?thesis using assms(4) by simp
next
  case (presente vs)
  then show ?thesis using assms(1) by (simp add: get_col_set_col_same)
qed


lemma manejar_Cons_Inr:
  "manejar_valores_nulos df ((c, e) # es) = Inr df' \<longleftrightarrow>
   (\<exists>d. aplicar_estrategia df c e = Inr d \<and> manejar_valores_nulos d es = Inr df')"
  by (cases "aplicar_estrategia df c e") simp_all

text \<open>
  The two date columns after the configured strategies: \<^verbatim>\<open>signup_date\<close> has no
  strategy and keeps its cells, \<^verbatim>\<open>last_purchase_date\<close> is forward-filled, and both
  lose the rows whose \<^verbatim>\<open>churn_label\<close> is missing.
\<close>

lemma manejar_columnas_fecha:
  assumes wf: "wf_table df"
      and cols: "''signup_date'' \<in> set (columns df)" "''last_purchase_date'' \<in> set (columns df)"
                "''churn_label'' \<in> set (columns df)"
      and res: "manejar_valores_nulos df ESTRATEGIA_NULOS = Inr df'"
  shows "get_col df' ''signup_date'' =
           map fst (filter (\<lambda>p. snd p \<noteq> Null)
             (zip (get_col df ''signup_date'') (get_col df ''churn_label'')))"
    and "get_col df' ''last_purchase_date'' =
           map fst (filter (\<lambda>p. snd p \<noteq> Null)
             (zip (ffill (get_col df ''last_purchase_date'')) (get_col df ''churn_label'')))"
proof -
  let ?s = "''signup_date''" and ?l = "''last_purchase_date''" and ?y = "''churn_label''"
  obtain d1 d2 d3 d4 where
    s1: "aplicar_estrategia df ''phone'' MISSING = Inr d1" and
    s2: "aplicar_estrategia d1 ''monthly_spend'' Mediana = Inr d2" and
    s3: "aplicar_estrategia d2 ''total_shipments'' Mediana = Inr d3" and
    s4: "aplicar_estrategia d3 ?l Ffill = Inr d4" and
    s5: "aplicar_estrategia d4 ?y Eliminar = Inr df'"
    using res unfolding ESTRATEGIA_NULOS_def manejar_Cons_Inr by auto
  have w1: "wf_table d1" "columns d1 = columns df"
    using aplicar_relleno_wf[OF wf _ s1] aplicar_relleno_columns[OF wf _ s1] by simp_all
  have w2: "wf_table d2" "columns d2 = columns df"
    using aplicar_relleno_wf[OF w1(1) _ s2] aplicar_relleno_columns[OF w1(1) _ s2] w1(2)
    by simp_all
  have w3: "wf_table d3" "columns d3 = columns df"
    using aplicar_relleno_wf[OF w2(1) _ s3] aplicar_relleno_columns[OF w2(1) _ s3] w2(2)
    by simp_all
  have w4: "wf_table d4" "columns d4 = columns df"
    using aplicar_relleno_wf[OF w3(1) _ s4] aplicar_relleno_columns[OF w3(1) _ s4] w3(2)
    by simp_all
  have keep: "get_col d3 c = get_col df c"
    if "c \<in> set (columns df)" "c \<noteq> ''phone''" "c \<noteq> ''monthly_spend''"
       "c \<noteq> ''total_shipments''" for c
  proof -
    have "get_col d1 c = get_col df c"
      using aplicar_relleno_other[OF wf _ s1] that by simp
    moreover have "get_col d2 c = get_col d1 c"
      using aplicar_relleno_other[OF w1(1) _ s2] that w1(2) by simp
    moreover have "get_col d3 c = get_col d2 c"
      using aplicar_relleno_other[OF w2(1) _ s3] that w2(2) by simp
    ultimately show ?thesis by simp
  qed
  have sg: "get_col d4 ?s = get_col df ?s"
    using aplicar_relleno_other[OF w3(1) _ s4, of ?s] keep[of ?s] cols(1) w3(2) by simp
  have yy: "get_col d4 ?y = get_col df ?y"
    using aplicar_relleno_other[OF w3(1) _ s4, of ?y] keep[of ?y] cols(3) w3(2) by simp
  have "relleno Ffill (get_col d3 ?l) = Inr (get_col d4 ?l)"
    using aplicar_relleno_same[OF w3(1) _ s4] cols(2) w3(2) by simp
  then have ll: "get_col d4 ?l = ffill (get_col df ?l)"
    using keep[of ?l] cols(2) by (simp add: relleno_def)
  have fin: "df' = dropna d4 ?y"
    using s5 aplicar_eliminar[of ?y d4] cols(3) w4(2) by simp
  show "get_col df' ?s =
          map fst (filter (\<lambda>p. snd p \<noteq> Null) (zip (get_col df ?s) (get_col df ?y)))"
    unfolding fin get_col_dropna sg yy ..
  show "get_col df' ?l =
          map fst (filter (\<lambda>p. snd p \<noteq> Null) (zip (ffill (get_col df ?l)) (get_col df ?y)))"
    unfolding fin get_col_dropna ll yy ..
qed

lemma null_survives:
  assumes "i < length cs" "length ls = length cs" "cs ! i = Null" "ls ! i \<noteq> Null"
  shows "Null \<in> set (map fst (filter (\<lambda>p. snd p \<noteq> Null) (zip cs ls)))"
proof -
  have "(cs ! i, ls ! i) \<in> set (zip cs ls)"
    using assms(1,2) by (metis in_set_zip fst_conv snd_conv)
  then have "(Null, ls ! i) \<in> set (filter (\<lambda>p. snd p \<noteq> Null) (zip cs ls))"
    using assms(3,4) by simp
  then show ?thesis by force
qed

lemma ffill_head: "cs \<noteq> [] \<Longrightarrow> hd cs = Null \<Longrightarrow> ffill cs \<noteq> [] \<and> hd (ffill cs) = Null"
  by (cases cs) (simp_all add: ffill_def)

lemma first_survives:
  assumes "cs \<noteq> []" "length ls = length cs" "hd ls \<noteq> Null"
  shows "map fst (filter (\<lambda>p. snd p \<noteq> Null) (zip cs ls)) \<noteq> [] \<and>
         hd (map fst (filter (\<lambda>p. snd p \<noteq> Null) (zip cs ls))) = hd cs"
  using assms by (cases cs; cases ls) simp_all

text \<open>
  Claim C10. The null-handling stage does not return a table free of missing
  values. Whenever it returns: a missing \<^verbatim>\<open>signup_date\<close> in a row that keeps its
  label is still missing in the result, since no strategy names that column; and a
  missing \<^verbatim>\<open>last_purchase_date\<close> in the first row, when that row keeps its label,
  is still missing in the first row of the result, since forward fill has nothing
  above it to copy. The witness is a table on which the stage returns.
\<close>

theorem manejar_nulos_restantes:
  assumes "wf_table df"
      and "''signup_date'' \<in> set (columns df)" and "''last_purchase_date'' \<in> set (columns df)"
      and "''churn_label'' \<in> set (columns df)"
      and "manejar_valores_nulos df ESTRATEGIA_NULOS = Inr df'"
  shows "(\<forall>i. i < length (rows df) \<and> get_col df ''signup_date'' ! i = Null \<and>
              get_col df ''churn_label'' ! i \<noteq> Null
            \<longrightarrow> Null \<in> set (get_col df' ''signup_date'')) \<and>
         (rows df \<noteq> [] \<and> hd (get_col df ''last_purchase_date'') = Null \<and>
              hd (get_col df ''churn_label'') \<noteq> Null
            \<longrightarrow> get_col df' ''last_purchase_date'' \<noteq> [] \<and>
                hd (get_col df' ''last_purchase_date'') = Null)"
proof (intro conjI allI impI)
  fix i
  assume "i < length (rows df) \<and> get_col df ''signup_date'' ! i = Null \<and>
          get_col df ''churn_label'' ! i \<noteq> Null"
  then show "Null \<in> set (get_col df' ''signup_date'')"
    unfolding manejar_columnas_fecha(1)[OF assms]
    by (intro null_survives[of i]) simp_all
next
  assume a: "rows df \<noteq> [] \<and> hd (get_col df ''last_purchase_date'') = Null \<and>
             hd (get_col df ''churn_label'') \<noteq> Null"
  then have ne: "get_col df ''last_purchase_date'' \<noteq> []"
    by (simp add: get_col_def)
  have f: "ffill (get_col df ''last_purchase_date'') \<noteq> []"
      "hd (ffill (get_col df ''last_purchase_date'')) = Null"
    using ffill_head[OF ne] a by simp_all
  have "length (get_col df ''churn_label'') = length (ffill (get_col df ''last_purchase_date''))"
    by simp
  from first_survives[OF f(1) this] a f(2)
  show "get_col df' ''last_purchase_date'' \<noteq> []"
    and "hd (get_col df' ''last_purchase_date'') = Null"
    unfolding manejar_columnas_fecha(2)[OF assms] by simp_all
qed

definition tabla_nulos :: table where
  "tabla_nulos =
     \<lparr>columns = [''customer_id'', ''phone'', ''signup_date'', ''last_purchase_date'',
                 ''monthly_spend'', ''churn_label''],
      rows = [[Str ''C1'', Null, Null, Null, Num 100, Num 0],
              [Str ''C2'', Str ''555'', Date 10, Date 20, Null, Num 1],
              [Str ''C3'', Str ''556'', Date 11, Null, Num 300, Null]]\<rparr>"

definition tabla_nulos_tratada :: table where
  "tabla_nulos_tratada =
     \<lparr>columns = [''customer_id'', ''phone'', ''signup_date'', ''last_purchase_date'',
                 ''monthly_spend'', ''churn_label''],
      rows = [[Str ''C1'', Str ''MISSING'', Null, Null, Num 100, Num 0],
              [Str ''C2'', Str ''555'', Date 10, Date 20, Num 200, Num 1]]\<rparr>"

lemma manejar_tabla_nulos:
  "manejar_valores_nulos tabla_nulos ESTRATEGIA_NULOS = Inr tabla_nulos_tratada"
  by (simp add: tabla_nulos_def tabla_nulos_tratada_def ESTRATEGIA_NULOS_def aplicar_estrategia_def get_col_def
        col_pos_def set_col_def fillna_def ffill_def series_median_def median_reals_def
        valor_num_def dropna_def)


theorem manejar_nulos_restantes_witness:
  "wf_table tabla_nulos \<and>
   manejar_valores_nulos tabla_nulos ESTRATEGIA_NULOS = Inr tabla_nulos_tratada \<and>
   get_col tabla_nulos ''signup_date'' ! 0 = Null \<and>
   get_col tabla_nulos ''churn_label'' ! 0 \<noteq> Null \<and>
   hd (get_col tabla_nulos ''last_purchase_date'') = Null \<and>
   Null \<in> set (get_col tabla_nulos_tratada ''signup_date'') \<and>
   hd (get_col tabla_nulos_tratada ''last_purchase_date'') = Null"
proof -
  have w: "wf_table tabla_nulos"
    by (simp add: wf_table_def tabla_nulos_def)
  have c: "''signup_date'' \<in> set (columns tabla_nulos)"
      "''last_purchase_date'' \<in> set (columns tabla_nulos)"
      "''churn_label'' \<in> set (columns tabla_nulos)"
    by (simp_all add: tabla_nulos_def)
  have g: "get_col tabla_nulos ''signup_date'' = [Null, Date 10, Date 11]"
      "get_col tabla_nulos ''churn_label'' = [Num 0, Num 1, Null]"
      "get_col tabla_nulos ''last_purchase_date'' = [Null, Date 20, Null]"
    by (simp_all add: get_col_def col_pos_def tabla_nulos_def)
  have r: "rows tabla_nulos \<noteq> []" "length (rows tabla_nulos) = 3"
    by (simp_all add: tabla_nulos_def)
  note th = manejar_nulos_restantes [OF w c manejar_tabla_nulos]
  from th have "0 < length (rows tabla_nulos) \<and> get_col tabla_nulos ''signup_date'' ! 0 = Null \<and>
      get_col tabla_nulos ''churn_label'' ! 0 \<noteq> Null
      \<longrightarrow> Null \<in> set (get_col tabla_nulos_tratada ''signup_date'')"
    by blast
  then have a: "Null \<in> set (get_col tabla_nulos_tratada ''signup_date'')"
    by (simp add: g r)
  from th have b: "hd (get_col tabla_nulos_tratada ''last_purchase_date'') = Null"
    using r by (simp add: g)
  show ?thesis
    using a b w manejar_tabla_nulos by (simp add: g)
qed

subsection \<open>Order of the strategies\<close>

text \<open>
  The only error a filling strategy raises is the \<^verbatim>\<open>TypeError\<close> of the median, and
  it depends on the strategy's own column alone. \<open>luego\<close> chains two steps and stops
  at the first error, as the exception does.
\<close>

lemma relleno_error: "relleno e cs = Inl err \<Longrightarrow> err = TypeError"
  by (cases e) (auto simp: relleno_def series_median_def Let_def split: if_splits sum.splits)

lemma aplicar_ausente: "c \<notin> set (columns df) \<Longrightarrow> aplicar_estrategia df c e = Inr df"
  by (simp add: aplicar_estrategia_def)

lemma aplicar_error:
  assumes "wf_table df" "e \<noteq> Eliminar" "aplicar_estrategia df c e = Inl err"
  shows "err = TypeError \<and> c \<in> set (columns df) \<and> relleno e (get_col df c) = Inl TypeError"
proof -
  have c: "c \<in> set (columns df)"
    using assms(3) by (cases "c \<in> set (columns df)") (simp_all add: aplicar_ausente)
  then have "(case relleno e (get_col df c) of Inl err \<Rightarrow> Inl err
                | Inr vs \<Rightarrow> Inr (set_col df c vs)) = Inl err"
    using aplicar_relleno[OF assms(1) c assms(2)] assms(3) by simp
  then have "relleno e (get_col df c) = Inl err"
    by (cases "relleno e (get_col df c)") simp_all
  then show ?thesis using c relleno_error by blast
qed

definition luego :: "error + table \<Rightarrow> (table \<Rightarrow> error + table) \<Rightarrow> error + table" where
  "luego r f = (case r of Inl err \<Rightarrow> Inl err | Inr df \<Rightarrow> f df)"

lemma luego_simps [simp]: "luego (Inl err) f = Inl err" "luego (Inr df) f = f df"
  by (simp_all add: luego_def)

lemma manejar_Cons_luego:
  "manejar_valores_nulos df ((c, e) # es) =
     luego (aplicar_estrategia df c e) (\<lambda>d. manejar_valores_nulos d es)"
  by (simp add: luego_def)

lemma manejar_append:
  "manejar_valores_nulos df (xs @ zs) =
     luego (manejar_valores_nulos df xs) (\<lambda>d. manejar_valores_nulos d zs)"
proof (induction xs arbitrary: df)
  case Nil
  show ?case by simp
next
  case (Cons x xs)
  obtain c e where x: "x = (c, e)" by (cases x)
  show ?case unfolding x
    by (cases "aplicar_estrategia df c e") (simp_all add: Cons.IH)
qed

lemma aplicar_swap:
  assumes wf: "wf_table df" and ne: "c1 \<noteq> c2" and e1: "e1 \<noteq> Eliminar" and e2: "e2 \<noteq> Eliminar"
  shows "luego (aplicar_estrategia df c1 e1) (\<lambda>d. aplicar_estrategia d c2 e2) =
         luego (aplicar_estrategia df c2 e2) (\<lambda>d. aplicar_estrategia d c1 e1)"
proof (cases "c1 \<in> set (columns df)")
  case a1: False
  show ?thesis
  proof (cases "aplicar_estrategia df c2 e2")
    case (Inl err)
    then show ?thesis using a1 by (simp add: aplicar_ausente)
  next
    case (Inr d)
    have "columns d = columns df" using aplicar_relleno_columns[OF wf e2 Inr] .
    then show ?thesis using a1 Inr by (simp add: aplicar_ausente)
  qed
next
  case p1: True
  show ?thesis
  proof (cases "c2 \<in> set (columns df)")
    case a2: False
    show ?thesis
    proof (cases "aplicar_estrategia df c1 e1")
      case (Inl err)
      then show ?thesis using a2 by (simp add: aplicar_ausente)
    next
      case (Inr d)
      have "columns d = columns df" using aplicar_relleno_columns[OF wf e1 Inr] .
      then show ?thesis using a2 Inr by (simp add: aplicar_ausente)
    qed
  next
    case p2: True
    note A1 = aplicar_relleno[OF wf p1 e1]
    note A2 = aplicar_relleno[OF wf p2 e2]
    show ?thesis
    proof (cases "relleno e1 (get_col df c1)")
      case l1: (Inl err1)
      then have t1: "err1 = TypeError" by (rule relleno_error)
      show ?thesis
      proof (cases "relleno e2 (get_col df c2)")
        case l2: (Inl err2)
        then have "err2 = TypeError" by (rule relleno_error)
        then show ?thesis using l1 l2 t1 A1 A2 by simp
      next
        case r2: (Inr vs2)
        let ?d2 = "set_col df c2 vs2"
        have len2: "length vs2 = length (rows df)" using length_relleno[OF r2] by simp
        have w2: "wf_table ?d2" using wf p2 by (rule wf_set_col)
        have p1': "c1 \<in> set (columns ?d2)" using p1 p2 by (simp add: columns_set_col_present)
        have "get_col ?d2 c1 = get_col df c1"
          using p1 p2 ne len2 by (simp add: get_col_set_col_other)
        then have "aplicar_estrategia ?d2 c1 e1 = Inl err1"
          using aplicar_relleno[OF w2 p1' e1] l1 by simp
        then show ?thesis using l1 r2 A1 A2 by simp
      qed
    next
      case r1: (Inr vs1)
      let ?d1 = "set_col df c1 vs1"
      have len1: "length vs1 = length (rows df)" using length_relleno[OF r1] by simp
      have w1: "wf_table ?d1" using wf p1 by (rule wf_set_col)
      have p2': "c2 \<in> set (columns ?d1)" using p1 p2 by (simp add: columns_set_col_present)
      have g2: "get_col ?d1 c2 = get_col df c2"
        using p1 p2 ne len1 by (simp add: get_col_set_col_other)
      show ?thesis
      proof (cases "relleno e2 (get_col df c2)")
        case l2: (Inl err2)
        have "aplicar_estrategia ?d1 c2 e2 = Inl err2"
          using aplicar_relleno[OF w1 p2' e2] l2 g2 by simp
        then show ?thesis using r1 l2 A1 A2 by simp
      next
        case r2: (Inr vs2)
        let ?d2 = "set_col df c2 vs2"
        have len2: "length vs2 = length (rows df)" using length_relleno[OF r2] by simp
        have w2: "wf_table ?d2" using wf p2 by (rule wf_set_col)
        have p1': "c1 \<in> set (columns ?d2)" using p1 p2 by (simp add: columns_set_col_present)
        have g1: "get_col ?d2 c1 = get_col df c1"
          using p1 p2 ne len2 by (simp add: get_col_set_col_other)
        have s12: "aplicar_estrategia ?d1 c2 e2 = Inr (set_col ?d1 c2 vs2)"
          using aplicar_relleno[OF w1 p2' e2] r2 g2 by simp
        have s21: "aplicar_estrategia ?d2 c1 e1 = Inr (set_col ?d2 c1 vs1)"
          using aplicar_relleno[OF w2 p1' e1] r1 g1 by simp
        have "set_col ?d1 c2 vs2 = set_col ?d2 c1 vs1"
          using p1 p2 ne len1 len2 by (rule set_col_commute)
        then show ?thesis using r1 r2 A1 A2 s12 s21 by simp
      qed
    qed
  qed
qed


text \<open>A list of filling strategies, each on a column of its own.\<close>

definition rellenos_ok :: "(string \<times> estrategia) list \<Rightarrow> bool" where
  "rellenos_ok xs = (distinct (map fst xs) \<and> Eliminar \<notin> set (map snd xs))"

lemma rellenos_ok_Cons:
  "rellenos_ok ((c, e) # xs) \<longleftrightarrow> c \<notin> set (map fst xs) \<and> e \<noteq> Eliminar \<and> rellenos_ok xs"
  by (auto simp: rellenos_ok_def)

lemma manejar_move_front:
  assumes "wf_table df" "e \<noteq> Eliminar" "c \<notin> set (map fst ys1)" "Eliminar \<notin> set (map snd ys1)"
  shows "manejar_valores_nulos df (ys1 @ (c, e) # ys2) =
         manejar_valores_nulos df ((c, e) # ys1 @ ys2)"
  using assms
proof (induction ys1 arbitrary: df)
  case Nil
  show ?case by simp
next
  case (Cons y ys1)
  obtain c' e' where y: "y = (c', e')" by (cases y)
  have ne: "c' \<noteq> c" and e': "e' \<noteq> Eliminar"
    using Cons.prems(3,4) y by auto
  have rest: "c \<notin> set (map fst ys1)" "Eliminar \<notin> set (map snd ys1)"
    using Cons.prems(3,4) by auto
  have "manejar_valores_nulos df ((y # ys1) @ (c, e) # ys2) =
        luego (aplicar_estrategia df c' e') (\<lambda>d. manejar_valores_nulos d (ys1 @ (c, e) # ys2))"
    unfolding y by (simp add: luego_def)
  also have "\<dots> = luego (aplicar_estrategia df c' e')
                      (\<lambda>d. manejar_valores_nulos d ((c, e) # ys1 @ ys2))"
  proof (cases "aplicar_estrategia df c' e'")
    case (Inl err)
    then show ?thesis by simp
  next
    case (Inr d)
    have "wf_table d" using aplicar_relleno_wf[OF Cons.prems(1) e' Inr] .
    then show ?thesis using Inr Cons.IH[OF _ Cons.prems(2) rest] by simp
  qed
  also have "\<dots> = luego (luego (aplicar_estrategia df c' e') (\<lambda>d. aplicar_estrategia d c e))
                      (\<lambda>d. manejar_valores_nulos d (ys1 @ ys2))"
    by (cases "aplicar_estrategia df c' e'") (simp_all add: luego_def)
  also have "\<dots> = luego (luego (aplicar_estrategia df c e) (\<lambda>d. aplicar_estrategia d c' e'))
                      (\<lambda>d. manejar_valores_nulos d (ys1 @ ys2))"
    using aplicar_swap[OF Cons.prems(1) ne e' Cons.prems(2)] by simp
  also have "\<dots> = manejar_valores_nulos df ((c, e) # (y # ys1) @ ys2)"
    unfolding y by (cases "aplicar_estrategia df c e") (simp_all add: luego_def)
  finally show ?case .
qed

lemma manejar_permutacion:
  assumes "wf_table df" "rellenos_ok xs" "mset ys = mset xs"
  shows "manejar_valores_nulos df ys = manejar_valores_nulos df xs"
  using assms
proof (induction xs arbitrary: ys df)
  case Nil
  then show ?case by simp
next
  case (Cons x xs)
  obtain c e where x: "x = (c, e)" by (cases x)
  have ok: "c \<notin> set (map fst xs)" "e \<noteq> Eliminar" "rellenos_ok xs"
    using Cons.prems(2) unfolding x rellenos_ok_Cons by simp_all
  have "x \<in> set ys" using Cons.prems(3) by (metis list.set_intros(1) set_mset_mset)
  then obtain ys1 ys2 where ys: "ys = ys1 @ x # ys2" by (meson split_list)
  have m: "mset (ys1 @ ys2) = mset xs" using Cons.prems(3) ys by simp
  then have sub: "set ys1 \<subseteq> set xs" by (metis Un_iff set_append set_mset_mset subsetI)
  have f1: "c \<notin> set (map fst ys1)" using ok(1) sub by auto
  have f2: "Eliminar \<notin> set (map snd ys1)"
    using ok(3) sub unfolding rellenos_ok_def by auto
  have "manejar_valores_nulos df ys = manejar_valores_nulos df ((c, e) # ys1 @ ys2)"
    unfolding ys x using Cons.prems(1) ok(2) f1 f2 by (rule manejar_move_front)
  also have "\<dots> = manejar_valores_nulos df ((c, e) # xs)"
  proof (cases "aplicar_estrategia df c e")
    case (Inl err)
    then show ?thesis by simp
  next
    case (Inr d)
    have "wf_table d" using aplicar_relleno_wf[OF Cons.prems(1) ok(2) Inr] .
    then show ?thesis using Inr Cons.IH[OF _ ok(3) m] by simp
  qed
  finally show ?case unfolding x .
qed

text \<open>The four filling strategies of \<^verbatim>\<open>ESTRATEGIA_NULOS\<close>: all its entries but the last.\<close>

definition RELLENOS :: "(string \<times> estrategia) list" where
  "RELLENOS =
     [(''phone'', MISSING),
      (''monthly_spend'', Mediana),
      (''total_shipments'', Mediana),
      (''last_purchase_date'', Ffill)]"

text \<open>
  Claim C3, as the code has it. On every well-formed table the four filling
  strategies (constant for \<^verbatim>\<open>phone\<close>, median for \<^verbatim>\<open>monthly_spend\<close> and
  \<^verbatim>\<open>total_shipments\<close>, forward fill for \<^verbatim>\<open>last_purchase_date\<close>) can be applied in
  any order: followed by the row removal for \<^verbatim>\<open>churn_label\<close>, which the
  configuration puts last, every permutation of them gives the result of the
  configured order (the same table, or the same error).
\<close>

theorem manejar_orden_rellenos:
  assumes "wf_table df" and "mset ps = mset RELLENOS"
  shows "manejar_valores_nulos df (ps @ [(''churn_label'', Eliminar)]) =
         manejar_valores_nulos df ESTRATEGIA_NULOS"
proof -
  have ok: "rellenos_ok RELLENOS" by (simp add: rellenos_ok_def RELLENOS_def)
  have p: "manejar_valores_nulos df ps = manejar_valores_nulos df RELLENOS"
    using assms(1) ok assms(2) by (rule manejar_permutacion)
  have E: "ESTRATEGIA_NULOS = RELLENOS @ [(''churn_label'', Eliminar)]"
    by (simp add: ESTRATEGIA_NULOS_def RELLENOS_def)
  show ?thesis unfolding E manejar_append p ..
qed

theorem manejar_orden_rellenos_witness:
  "wf_table tabla_nulos \<and>
   mset [(''last_purchase_date'', Ffill), (''total_shipments'', Mediana),
         (''phone'', MISSING), (''monthly_spend'', Mediana)] = mset RELLENOS \<and>
   manejar_valores_nulos tabla_nulos
     [(''last_purchase_date'', Ffill), (''total_shipments'', Mediana),
      (''phone'', MISSING), (''monthly_spend'', Mediana), (''churn_label'', Eliminar)]
     = Inr tabla_nulos_tratada"
proof -
  have w: "wf_table tabla_nulos"
    by (simp add: wf_table_def tabla_nulos_def)
  have m: "mset [(''last_purchase_date'', Ffill), (''total_shipments'', Mediana),
                 (''phone'', MISSING), (''monthly_spend'', Mediana)] = mset RELLENOS"
    by (simp add: RELLENOS_def)
  show ?thesis
    using manejar_orden_rellenos [OF w m] w m manejar_tabla_nulos by simp
qed

text \<open>
  The row removal does not commute with the fills. Moved to the front, it removes
  the row of customer C3 before the median of \<^verbatim>\<open>monthly_spend\<close> is taken, and the
  missing spend of C2 becomes 100 instead of 200.
\<close>

theorem manejar_orden_eliminar_primero:
  "mset [(''churn_label'', Eliminar), (''phone'', MISSING), (''monthly_spend'', Mediana),
         (''total_shipments'', Mediana), (''last_purchase_date'', Ffill)]
     = mset ESTRATEGIA_NULOS \<and>
   manejar_valores_nulos tabla_nulos
     [(''churn_label'', Eliminar), (''phone'', MISSING), (''monthly_spend'', Mediana),
      (''total_shipments'', Mediana), (''last_purchase_date'', Ffill)]
     \<noteq> manejar_valores_nulos tabla_nulos ESTRATEGIA_NULOS"
proof
  show "mset [(''churn_label'', Eliminar), (''phone'', MISSING), (''monthly_spend'', Mediana),
         (''total_shipments'', Mediana), (''last_purchase_date'', Ffill)]
     = mset ESTRATEGIA_NULOS"
    by (simp add: ESTRATEGIA_NULOS_def)
next
  have a: "manejar_valores_nulos tabla_nulos
     [(''churn_label'', Eliminar), (''phone'', MISSING), (''monthly_spend'', Mediana),
      (''total_shipments'', Mediana), (''last_purchase_date'', Ffill)]
     = Inr \<lparr>columns = [''customer_id'', ''phone'', ''signup_date'', ''last_purchase_date'',
                     ''monthly_spend'', ''churn_label''],
            rows = [[Str ''C1'', Str ''MISSING'', Null, Null, Num 100, Num 0],
                    [Str ''C2'', Str ''555'', Date 10, Date 20, Num 100, Num 1]]\<rparr>"
    by (simp add: tabla_nulos_def aplicar_estrategia_def get_col_def
        col_pos_def set_col_def fillna_def ffill_def series_median_def median_reals_def
        valor_num_def dropna_def)
  show "manejar_valores_nulos tabla_nulos
     [(''churn_label'', Eliminar), (''phone'', MISSING), (''monthly_spend'', Mediana),
      (''total_shipments'', Mediana), (''last_purchase_date'', Ffill)]
     \<noteq> manejar_valores_nulos tabla_nulos ESTRATEGIA_NULOS"
    unfolding a manejar_tabla_nulos by (simp add: tabla_nulos_tratada_def)
qed

section \<open>Deduplication (limpieza.py)\<close>

text \<open>
  \<^verbatim>\<open>pd.to_datetime(col, errors='coerce')\<close> is the library's parser: the model takes
  it as a parameter \<open>parse\<close> from a cell to a date or nothing, applied cell by cell. A
  missing cell stays missing, a date stays as it is, and a value the parser refuses
  becomes missing.
\<close>

definition to_datetime :: "(cell \<Rightarrow> int option) \<Rightarrow> cell \<Rightarrow> cell" where
  "to_datetime parse c =
     (case c of
        Null \<Rightarrow> Null
      | Date d \<Rightarrow> Date d
      | _ \<Rightarrow> (case parse c of None \<Rightarrow> Null | Some d \<Rightarrow> Date d))"

text \<open>
  \<^verbatim>\<open>duplicated()\<close> and \<^verbatim>\<open>drop_duplicates(keep='first')\<close>: of the rows that share a key
  the first one stays. Missing keys count as equal to one another, as in pandas.
\<close>

fun keep_first :: "('a \<Rightarrow> 'k) \<Rightarrow> 'a list \<Rightarrow> 'a list" where
  "keep_first key [] = []"
| "keep_first key (x # xs) = x # filter (\<lambda>y. key y \<noteq> key x) (keep_first key xs)"

text \<open>
  \<^verbatim>\<open>sort_values([id, temp], ascending=[True, False])\<close> is a stable sort with missing
  values last in both columns. It raises \<^verbatim>\<open>TypeError\<close> when the key column mixes
  texts, numbers and dates. The temporary column holds dates and missing cells only.
\<close>

fun tipo :: "cell \<Rightarrow> nat" where
  "tipo Null = 0"
| "tipo (Str _) = 1"
| "tipo (Num _) = 2"
| "tipo (Bool _) = 2"
| "tipo (Date _) = 3"

definition ordenable :: "cell list \<Rightarrow> bool" where
  "ordenable cs = (length (remdups (map tipo (filter (\<lambda>c. c \<noteq> Null) cs))) \<le> 1)"

fun clave_asc :: "cell \<Rightarrow> bool \<times> real \<times> string" where
  "clave_asc Null = (True, 0, '''')"
| "clave_asc (Str s) = (False, 0, s)"
| "clave_asc (Num v) = (False, v, '''')"
| "clave_asc (Bool b) = (False, (if b then 1 else 0), '''')"
| "clave_asc (Date d) = (False, real_of_int d, '''')"

fun clave_fecha_desc :: "cell \<Rightarrow> bool \<times> int" where
  "clave_fecha_desc (Date d) = (False, - d)"
| "clave_fecha_desc _ = (True, 0)"

text \<open>
  \<^verbatim>\<open>detectar_duplicados(df, columna_id)\<close>. The parameter \<^verbatim>\<open>accion\<close> of the source is
  never read and is left out. \<^verbatim>\<open>df[columna_id]\<close> raises \<^verbatim>\<open>KeyError\<close> on a table
  without the key column.
\<close>

definition detectar_duplicados :: "(cell \<Rightarrow> int option) \<Rightarrow> table \<Rightarrow> string \<Rightarrow> error + table" where
  "detectar_duplicados parse df0 columna_id =
     (let df = df0\<lparr>rows := keep_first (\<lambda>r. r) (rows df0)\<rparr>
      in if columna_id \<notin> set (columns df) then Inl KeyError
         else if distinct (get_col df columna_id) then Inr df
         else if ''last_purchase_date'' \<in> set (columns df) then
           (if \<not> ordenable (get_col df columna_id) then Inl TypeError
            else
              let df1 = set_col df ''last_purchase_date_temp''
                          (map (to_datetime parse) (get_col df ''last_purchase_date''));
                  df2 = df1\<lparr>rows := sort_key
                          (\<lambda>r. (clave_asc (r ! col_pos df1 columna_id),
                                clave_fecha_desc (r ! col_pos df1 ''last_purchase_date_temp'')))
                          (rows df1)\<rparr>;
                  df3 = df2\<lparr>rows := keep_first (\<lambda>r. r ! col_pos df2 columna_id) (rows df2)\<rparr>
              in Inr (drop_col df3 ''last_purchase_date_temp''))
         else Inr (df\<lparr>rows := keep_first (\<lambda>r. r ! col_pos df columna_id) (rows df)\<rparr>))"

text \<open>A parser for the dates of the example table, in days since 1970-01-01.\<close>

definition parse_ejemplo :: "cell \<Rightarrow> int option" where
  "parse_ejemplo c =
     (if c = Str ''2024-01-01'' then Some 19723
      else if c = Str ''2024-06-01'' then Some 19875
      else if c = Str ''2024-03-05'' then Some 19787
      else None)"

definition tabla_dup :: table where
  "tabla_dup =
     \<lparr>columns = [''customer_id'', ''last_purchase_date'', ''monthly_spend''],
      rows = [[Str ''C2'', Str ''2024-03-05'', Str ''70''],
              [Str ''C1'', Str ''2024-01-01'', Str ''100''],
              [Str ''C1'', Str ''2024-06-01'', Str ''250''],
              [Str ''C1'', Str ''2024-01-01'', Str ''100'']]\<rparr>"


subsection \<open>Positions\<close>

lemma pos_unique:
  assumes "distinct cs" "i < length cs" "cs ! i = c"
  shows "length (takeWhile (\<lambda>n. n \<noteq> c) cs) = i"
proof -
  have c: "c \<in> set cs" using assms(2,3) by auto
  have "cs ! length (takeWhile (\<lambda>n. n \<noteq> c) cs) = cs ! i"
    using pos_nth[OF c] assms(3) by simp
  then show ?thesis
    using assms(1,2) pos_lt[OF c] by (simp add: nth_eq_iff_index_eq)
qed

lemma nth_drop_nth_lt: "i < p \<Longrightarrow> p \<le> length xs \<Longrightarrow> drop_nth p xs ! i = xs ! i"
  by (simp add: drop_nth_def nth_append)

lemma nth_drop_nth_ge: "p \<le> i \<Longrightarrow> p < length xs \<Longrightarrow> drop_nth p xs ! i = xs ! Suc i"
  by (simp add: drop_nth_def nth_append min_def)

lemma length_drop_nth: "p < length xs \<Longrightarrow> length (drop_nth p xs) = length xs - 1"
  by (simp add: drop_nth_def)

lemma set_drop_nth: "set (drop_nth p xs) \<subseteq> set xs"
  unfolding drop_nth_def by (auto dest: in_set_takeD in_set_dropD)

lemma distinct_drop_nth: "distinct xs \<Longrightarrow> distinct (drop_nth p xs)"
  unfolding drop_nth_def
  by (auto simp: set_take_disj_set_drop_if_distinct dest: in_set_takeD in_set_dropD)

text \<open>Where an other column stands once the column at position \<open>p\<close> is gone.\<close>

definition pos_tras :: "nat \<Rightarrow> nat \<Rightarrow> nat" where
  "pos_tras p q = (if q < p then q else q - 1)"

lemma nth_drop_nth_pos_tras:
  assumes "p < length xs" "q < length xs" "q \<noteq> p"
  shows "drop_nth p xs ! pos_tras p q = xs ! q" and "pos_tras p q < length (drop_nth p xs)"
proof -
  show "drop_nth p xs ! pos_tras p q = xs ! q"
  proof (cases "q < p")
    case True
    then show ?thesis using assms by (simp add: pos_tras_def nth_drop_nth_lt)
  next
    case False
    then have "p \<le> q - 1" "Suc (q - 1) = q" using assms(3) by auto
    then show ?thesis using False assms nth_drop_nth_ge[of p "q - 1" xs]
      by (simp add: pos_tras_def)
  qed
  show "pos_tras p q < length (drop_nth p xs)"
    using assms by (auto simp: pos_tras_def length_drop_nth)
qed

lemma col_pos_drop_col:
  assumes "wf_table df" "c \<in> set (columns df)" "c' \<in> set (columns df)" "c' \<noteq> c"
  shows "col_pos (drop_col df c) c' = pos_tras (col_pos df c) (col_pos df c')"
    and "c' \<in> set (columns (drop_col df c))"
proof -
  let ?p = "col_pos df c" and ?q = "col_pos df c'"
  have d: "distinct (columns df)" using assms(1) by (simp add: wf_table_def)
  have p: "?p < length (columns df)" and q: "?q < length (columns df)"
    using assms(2,3) by (simp_all add: col_pos_lt)
  have ne: "?q \<noteq> ?p" using assms(2,3,4) col_pos_inj by blast
  have cols: "columns (drop_col df c) = drop_nth ?p (columns df)"
    using assms(2) by (simp add: drop_col_def)
  have n: "drop_nth ?p (columns df) ! pos_tras ?p ?q = c'"
    and l: "pos_tras ?p ?q < length (drop_nth ?p (columns df))"
    using nth_drop_nth_pos_tras[OF p q ne] col_pos_nth[OF assms(3)] by simp_all
  show "col_pos (drop_col df c) c' = pos_tras ?p ?q"
    unfolding col_pos_def[of "drop_col df c"] cols
    using pos_unique[OF distinct_drop_nth[OF d] l n] by simp
  show "c' \<in> set (columns (drop_col df c))"
    unfolding cols using n l by (metis nth_mem)
qed

lemma get_col_drop_col:
  assumes "wf_table df" "c \<in> set (columns df)" "c' \<in> set (columns df)" "c' \<noteq> c"
  shows "get_col (drop_col df c) c' = get_col df c'"
proof -
  let ?p = "col_pos df c" and ?q = "col_pos df c'"
  have p: "?p < length (columns df)" and q: "?q < length (columns df)"
    using assms(2,3) by (simp_all add: col_pos_lt)
  have ne: "?q \<noteq> ?p" using assms(2,3,4) col_pos_inj by blast
  have rows: "rows (drop_col df c) = map (drop_nth ?p) (rows df)"
    using assms(2) by (simp add: drop_col_def)
  have "drop_nth ?p r ! pos_tras ?p ?q = r ! ?q" if "r \<in> set (rows df)" for r
  proof -
    have "length r = length (columns df)"
      using that assms(1) by (simp add: wf_table_def list_all_iff)
    then show ?thesis using nth_drop_nth_pos_tras(1)[of ?p r ?q] p q ne by simp
  qed
  then show ?thesis
    unfolding get_col_def col_pos_drop_col(1)[OF assms] rows by simp
qed

subsection \<open>Writing a new column\<close>

lemma pos_append_new:
  "c \<notin> set cs \<Longrightarrow> length (takeWhile (\<lambda>n. n \<noteq> c) (cs @ [c])) = length cs"
  by (induction cs) auto

lemma pos_append_old:
  "c \<in> set cs \<Longrightarrow> takeWhile (\<lambda>n. n \<noteq> c) (cs @ ys) = takeWhile (\<lambda>n. n \<noteq> c) cs"
  by (induction cs) auto

lemma set_col_absent:
  assumes "wf_table df" "c \<notin> set (columns df)" "length vs = length (rows df)"
  shows "wf_table (set_col df c vs)"
    and "columns (set_col df c vs) = columns df @ [c]"
    and "get_col (set_col df c vs) c = vs"
    and "c' \<in> set (columns df) \<Longrightarrow> get_col (set_col df c vs) c' = get_col df c'"
    and "length (rows (set_col df c vs)) = length (rows df)"
proof -
  have rows: "rows (set_col df c vs) = map (\<lambda>(r, v). r @ [v]) (zip (rows df) vs)"
    and cols: "columns (set_col df c vs) = columns df @ [c]"
    using assms(2) by (simp_all add: set_col_def)
  have len: "length r = length (columns df)" if "r \<in> set (rows df)" for r
    using that assms(1) by (simp add: wf_table_def list_all_iff)
  show "columns (set_col df c vs) = columns df @ [c]" by (rule cols)
  show "length (rows (set_col df c vs)) = length (rows df)"
    using assms(3) by (simp add: rows)
  show "wf_table (set_col df c vs)"
    using assms(1,2) len
    by (auto simp: wf_table_def rows cols list_all_iff dest!: set_zip_leftD)
  have pc: "col_pos (set_col df c vs) c = length (columns df)"
    using assms(2) by (simp add: col_pos_def cols pos_append_new)
  show "get_col (set_col df c vs) c = vs"
  proof (rule nth_equalityI)
    show "length (get_col (set_col df c vs) c) = length vs"
      using assms(3) by (simp add: rows)
  next
    fix i assume "i < length (get_col (set_col df c vs) c)"
    then have i: "i < length (rows df)" using assms(3) by (simp add: rows)
    then have "length (rows df ! i) = length (columns df)" using len by simp
    then have "(rows df ! i @ [vs ! i]) ! length (columns df) = vs ! i"
      by (metis nth_append_length)
    then show "get_col (set_col df c vs) c ! i = vs ! i"
      using i assms(3) by (simp add: get_col_def rows pc)
  qed
  show "get_col (set_col df c vs) c' = get_col df c'" if c': "c' \<in> set (columns df)"
  proof (rule nth_equalityI)
    show "length (get_col (set_col df c vs) c') = length (get_col df c')"
      using assms(3) by (simp add: rows)
  next
    fix i assume "i < length (get_col (set_col df c vs) c')"
    then have i: "i < length (rows df)" using assms(3) by (simp add: rows)
    then have l: "length (rows df ! i) = length (columns df)" using len by simp
    have pc': "col_pos (set_col df c vs) c' = col_pos df c'"
      using c' by (simp add: col_pos_def cols pos_append_old)
    show "get_col (set_col df c vs) c' ! i = get_col df c' ! i"
      using i assms(3) l col_pos_lt[OF c']
      by (simp add: get_col_def rows pc' nth_append)
  qed
qed

text \<open>Writing a column, whether it exists or not.\<close>

lemma set_col_any:
  assumes "wf_table df" "length vs = length (rows df)"
  shows "wf_table (set_col df c vs)"
    and "set (columns (set_col df c vs)) = insert c (set (columns df))"
    and "get_col (set_col df c vs) c = vs"
    and "c' \<in> set (columns df) \<Longrightarrow> c' \<noteq> c \<Longrightarrow> get_col (set_col df c vs) c' = get_col df c'"
    and "length (rows (set_col df c vs)) = length (rows df)"
proof -
  show "wf_table (set_col df c vs)"
    using assms set_col_absent(1) wf_set_col by (cases "c \<in> set (columns df)") auto
  show "set (columns (set_col df c vs)) = insert c (set (columns df))"
    using assms set_col_absent(2)[OF assms(1) _ assms(2)] columns_set_col_present
    by (cases "c \<in> set (columns df)") auto
  show "get_col (set_col df c vs) c = vs"
    using assms set_col_absent(3) get_col_set_col_same
    by (cases "c \<in> set (columns df)") auto
  show "c' \<in> set (columns df) \<Longrightarrow> c' \<noteq> c \<Longrightarrow> get_col (set_col df c vs) c' = get_col df c'"
    using assms set_col_absent(4) get_col_set_col_other
    by (cases "c \<in> set (columns df)") auto
  show "length (rows (set_col df c vs)) = length (rows df)"
    using assms set_col_absent(5) rows_set_col_present
    by (cases "c \<in> set (columns df)") auto
qed


subsection \<open>Keeping the first row of every key\<close>

lemma keep_first_subset: "set (keep_first key xs) \<subseteq> set xs"
  by (induction xs) auto

lemma keep_first_keys: "key ` set (keep_first key xs) = key ` set xs"
proof (induction xs)
  case Nil
  show ?case by simp
next
  case (Cons x xs)
  have "key ` {y \<in> set (keep_first key xs). key y \<noteq> key x} = key ` set (keep_first key xs) - {key x}"
    by auto
  then show ?case using Cons.IH by auto
qed

lemma keep_first_distinct: "distinct (map key (keep_first key xs))"
  by (induction xs) (auto simp: distinct_map_filter)

lemma keep_first_id_set: "set (keep_first (\<lambda>r. r) xs) = set xs"
  using keep_first_keys[of "\<lambda>r. r" xs] by simp

lemma keep_first_distinct_id: "distinct (map key xs) \<Longrightarrow> keep_first key xs = xs"
proof (induction xs)
  case Nil
  show ?case by simp
next
  case (Cons x xs)
  then have "\<forall>y\<in>set xs. key y \<noteq> key x"
    by (metis distinct.simps(2) image_eqI list.simps(9) set_map)
  then have "filter (\<lambda>y. key y \<noteq> key x) xs = xs"
    by (simp add: filter_id_conv)
  then show ?case using Cons by simp
qed

text \<open>
  In a list sorted by \<open>f\<close>, the row kept for a key is not after any row of that key.
\<close>

lemma keep_first_sorted:
  fixes f :: "'a \<Rightarrow> 'b::linorder"
  assumes "sorted (map f xs)" "r' \<in> set (keep_first key xs)" "r \<in> set xs" "key r = key r'"
  shows "f r' \<le> f r"
  using assms
proof (induction xs)
  case Nil
  then show ?case by simp
next
  case (Cons x xs)
  show ?case
  proof (cases "r' = x")
    case True
    then show ?thesis using Cons.prems(1,3) by auto
  next
    case False
    then have r': "r' \<in> set (keep_first key xs)" "key r' \<noteq> key x"
      using Cons.prems(2) by auto
    then have "r \<noteq> x" using Cons.prems(4) by auto
    then have "r \<in> set xs" using Cons.prems(3) by simp
    then show ?thesis using Cons.IH r'(1) Cons.prems(1,4) by simp
  qed
qed

subsection \<open>Replacing the rows of a table\<close>

lemma rows_update_facts:
  "columns (df\<lparr>rows := rs\<rparr>) = columns df"
  "rows (df\<lparr>rows := rs\<rparr>) = rs"
  "col_pos (df\<lparr>rows := rs\<rparr>) c = col_pos df c"
  "get_col (df\<lparr>rows := rs\<rparr>) c = map (\<lambda>r. r ! col_pos df c) rs"
  by (simp_all add: col_pos_def get_col_def)

lemma wf_rows_update:
  "wf_table df \<Longrightarrow> set rs \<subseteq> set (rows df) \<Longrightarrow> wf_table (df\<lparr>rows := rs\<rparr>)"
  by (auto simp: wf_table_def list_all_iff)

lemma zip_map_same: "zip (map f xs) (map g xs) = map (\<lambda>x. (f x, g x)) xs"
  by (induction xs) simp_all

lemma set_zip_get_col:
  "set (zip (get_col df a) (get_col df b)) =
   (\<lambda>r. (r ! col_pos df a, r ! col_pos df b)) ` set (rows df)"
proof -
  have "zip (get_col df a) (get_col df b) =
        map (\<lambda>r. (r ! col_pos df a, r ! col_pos df b)) (rows df)"
    unfolding get_col_def by (rule zip_map_same)
  then show ?thesis by simp
qed


lemma clave_fecha_desc_le:
  "clave_fecha_desc x \<le> (False, - d) \<Longrightarrow> \<exists>d'. x = Date d' \<and> d \<le> d'"
  by (cases x) (auto simp: less_eq_prod_def)

lemma to_datetime_Date [simp]: "to_datetime parse (Date d) = Date d"
  by (simp add: to_datetime_def)

lemma to_datetime_Null [simp]: "to_datetime parse Null = Null"
  by (simp add: to_datetime_def)

text \<open>
  Claim C6. Whenever \<^verbatim>\<open>detectar_duplicados\<close> returns (it does on every table with a
  \<^verbatim>\<open>customer_id\<close> column whose keys can be sorted), every key of the input appears
  in exactly one row of the result; and when the table has a \<^verbatim>\<open>last_purchase_date\<close>
  column, the row kept for a key holds a date that parses, and is not older than
  the date of any row of that key whose date parses. In the witness two rows of C1
  dated 2024-01-01 and 2024-06-01 collapse to the row of 2024-06-01.
\<close>

theorem detectar_duplicados_unicos:
  assumes wf: "wf_table df0"
      and res: "detectar_duplicados parse df0 ''customer_id'' = Inr df'"
  shows "distinct (get_col df' ''customer_id'') \<and>
         set (get_col df' ''customer_id'') = set (get_col df0 ''customer_id'') \<and>
         (''last_purchase_date'' \<in> set (columns df0) \<longrightarrow>
            (\<forall>k c c' d.
               (k, c) \<in> set (zip (get_col df0 ''customer_id'') (get_col df0 ''last_purchase_date'')) \<and>
               (k, c') \<in> set (zip (get_col df' ''customer_id'') (get_col df' ''last_purchase_date'')) \<and>
               to_datetime parse c = Date d
               \<longrightarrow> (\<exists>d'. to_datetime parse c' = Date d' \<and> d \<le> d')))"
proof -
  let ?ID = "''customer_id''" and ?L = "''last_purchase_date''"
  let ?T = "''last_purchase_date_temp''"
  define df where "df = df0\<lparr>rows := keep_first (\<lambda>r. r) (rows df0)\<rparr>"
  define df1 where "df1 = set_col df ?T (map (to_datetime parse) (get_col df ?L))"
  define df2 where "df2 = df1\<lparr>rows := sort_key
                          (\<lambda>r. (clave_asc (r ! col_pos df1 ?ID),
                                clave_fecha_desc (r ! col_pos df1 ?T)))
                          (rows df1)\<rparr>"
  define df3 where "df3 = df2\<lparr>rows := keep_first (\<lambda>r. r ! col_pos df2 ?ID) (rows df2)\<rparr>"
  define dfe where "dfe = df\<lparr>rows := keep_first (\<lambda>r. r ! col_pos df ?ID) (rows df)\<rparr>"
  have dd: "detectar_duplicados parse df0 ?ID =
      (if ?ID \<notin> set (columns df) then Inl KeyError
       else if distinct (get_col df ?ID) then Inr df
       else if ?L \<in> set (columns df) then
         (if \<not> ordenable (get_col df ?ID) then Inl TypeError
          else Inr (drop_col df3 ?T))
       else Inr dfe)"
    unfolding detectar_duplicados_def Let_def df_def df1_def df2_def df3_def dfe_def
    by (rule refl)
  have wfd: "wf_table df"
    unfolding df_def using wf keep_first_subset by (rule wf_rows_update)
  have cols: "columns df = columns df0" by (simp add: df_def)
  have pos: "col_pos df c = col_pos df0 c" for c by (simp add: df_def rows_update_facts)
  have rws: "set (rows df) = set (rows df0)" by (simp add: df_def keep_first_id_set)
  have idc: "?ID \<in> set (columns df)"
    using res unfolding dd by (cases "?ID \<in> set (columns df)") simp_all
  have gid0: "set (get_col df ?ID) = set (get_col df0 ?ID)"
    by (simp add: get_col_def pos rws)
  have pares0: "set (zip (get_col df ?ID) (get_col df ?L)) =
                set (zip (get_col df0 ?ID) (get_col df0 ?L))"
    by (simp add: set_zip_get_col pos rws)
  show ?thesis
  proof (cases "distinct (get_col df ?ID)")
    case True
    then have e: "df' = df" using res idc unfolding dd by simp
    have inj: "r ! col_pos df ?ID = r' ! col_pos df ?ID \<Longrightarrow> r = r'"
      if "r \<in> set (rows df)" "r' \<in> set (rows df)" for r r'
      using True that unfolding get_col_def by (meson distinct_map inj_onD)
    have "\<exists>d'. to_datetime parse c' = Date d' \<and> d \<le> d'"
      if h: "(k, c) \<in> set (zip (get_col df0 ?ID) (get_col df0 ?L))"
            "(k, c') \<in> set (zip (get_col df' ?ID) (get_col df' ?L))"
            "to_datetime parse c = Date d" for k c c' d
    proof -
      have "(k, c) \<in> set (zip (get_col df ?ID) (get_col df ?L))"
        using h(1) by (simp only: pares0)
      then obtain r where r: "r \<in> set (rows df)" "k = r ! col_pos df ?ID" "c = r ! col_pos df ?L"
        unfolding set_zip_get_col by auto
      obtain r' where r': "r' \<in> set (rows df)" "k = r' ! col_pos df ?ID" "c' = r' ! col_pos df ?L"
        using h(2) unfolding e set_zip_get_col by auto
      have "r = r'" using inj[OF r(1) r'(1)] r(2) r'(2) by simp
      then show ?thesis using r(3) r'(3) h(3) by simp
    qed
    then show ?thesis using True gid0 unfolding e by blast
  next
    case nd: False
    show ?thesis
    proof (cases "?L \<in> set (columns df)")
      case False
      then have e: "df' = dfe" using res idc nd unfolding dd by simp
      have g: "get_col dfe ?ID = map (\<lambda>r. r ! col_pos df ?ID) (keep_first (\<lambda>r. r ! col_pos df ?ID) (rows df))"
        by (simp add: dfe_def rows_update_facts)
      have 1: "distinct (get_col df' ?ID)"
        unfolding e g by (rule keep_first_distinct)
      have 2: "set (get_col df' ?ID) = set (get_col df0 ?ID)"
        unfolding e g gid0[symmetric] by (simp add: keep_first_keys get_col_def)
      show ?thesis using 1 2 False cols by simp
    next
      case lc: True
      have ord: "ordenable (get_col df ?ID)"
        using res idc nd lc unfolding dd by (cases "ordenable (get_col df ?ID)") simp_all
      then have e: "df' = drop_col df3 ?T" using res idc nd lc unfolding dd by simp
      let ?vs = "map (to_datetime parse) (get_col df ?L)"
      have len: "length ?vs = length (rows df)" by simp
      note sc = set_col_any[where c = "?T" and df = df and vs = "?vs", OF wfd len, folded df1_def]
      have w1: "wf_table df1" by (rule sc(1))
      have c1: "?ID \<in> set (columns df1)" "?L \<in> set (columns df1)" "?T \<in> set (columns df1)"
        using sc(2) idc lc by simp_all
      have gT: "get_col df1 ?T = ?vs" by (rule sc(3))
      have gI: "get_col df1 ?ID = get_col df ?ID" using sc(4)[OF idc] by simp
      have gL: "get_col df1 ?L = get_col df ?L" using sc(4)[OF lc] by simp
      let ?pi = "col_pos df1 ?ID" and ?pl = "col_pos df1 ?L" and ?pt = "col_pos df1 ?T"
      let ?F = "\<lambda>r. (clave_asc (r ! ?pi), clave_fecha_desc (r ! ?pt))"
      have rel: "r ! ?pt = to_datetime parse (r ! ?pl)" if "r \<in> set (rows df1)" for r
      proof -
        have "get_col df1 ?T = map (to_datetime parse) (get_col df1 ?L)"
          unfolding gT gL ..
        then have "map (\<lambda>r. r ! ?pt) (rows df1) = map (\<lambda>r. to_datetime parse (r ! ?pl)) (rows df1)"
          unfolding get_col_def by (simp add: comp_def)
        then show ?thesis using that by (simp add: map_eq_conv)
      qed
      have r2: "rows df2 = sort_key ?F (rows df1)" "columns df2 = columns df1"
          "col_pos df2 c = col_pos df1 c" for c
        by (simp_all add: df2_def rows_update_facts)
      have r3: "rows df3 = keep_first (\<lambda>r. r ! ?pi) (sort_key ?F (rows df1))"
          "columns df3 = columns df1" "col_pos df3 c = col_pos df1 c" for c
        by (simp_all add: df3_def r2 rows_update_facts)
      have sub3: "set (rows df3) \<subseteq> set (rows df1)"
        unfolding r3(1) using keep_first_subset[of "\<lambda>r. r ! ?pi" "sort_key ?F (rows df1)"] by simp
      have w3: "wf_table df3"
        using w1 sub3 unfolding wf_table_def r3(2) by (auto simp: list_all_iff)
      have c3: "?ID \<in> set (columns df3)" "?L \<in> set (columns df3)" "?T \<in> set (columns df3)"
        using c1 by (simp_all add: r3(2))
      have fI: "get_col df' ?ID = map (\<lambda>r. r ! ?pi) (rows df3)"
        unfolding e using get_col_drop_col[OF w3 c3(3) c3(1)] by (simp add: get_col_def r3(3))
      have fL: "get_col df' ?L = map (\<lambda>r. r ! ?pl) (rows df3)"
        unfolding e using get_col_drop_col[OF w3 c3(3) c3(2)] by (simp add: get_col_def r3(3))
      have 1: "distinct (get_col df' ?ID)"
        unfolding fI r3(1) by (rule keep_first_distinct)
      have "(\<lambda>r. r ! ?pi) ` set (rows df3) = (\<lambda>r. r ! ?pi) ` set (rows df1)"
        unfolding r3(1) by (simp add: keep_first_keys)
      then have 2: "set (get_col df' ?ID) = set (get_col df0 ?ID)"
        unfolding fI gid0[symmetric] gI[symmetric] by (simp add: get_col_def)
      have 3: "\<exists>d'. to_datetime parse c' = Date d' \<and> d \<le> d'"
        if h: "(k, c) \<in> set (zip (get_col df0 ?ID) (get_col df0 ?L))"
              "(k, c') \<in> set (zip (get_col df' ?ID) (get_col df' ?L))"
              "to_datetime parse c = Date d" for k c c' d
      proof -
        have "(k, c) \<in> set (zip (get_col df1 ?ID) (get_col df1 ?L))"
          using h(1) by (simp only: gI gL pares0)
        then obtain r1 where r1: "r1 \<in> set (rows df1)" "k = r1 ! ?pi" "c = r1 ! ?pl"
          unfolding set_zip_get_col by auto
        have "(k, c') \<in> (\<lambda>r. (r ! ?pi, r ! ?pl)) ` set (rows df3)"
          using h(2) unfolding fI fL zip_map_same by simp
        then obtain r3' where r3': "r3' \<in> set (rows df3)" "k = r3' ! ?pi" "c' = r3' ! ?pl"
          by auto
        have in1: "r3' \<in> set (rows df1)" using r3'(1) sub3 by auto
        have "?F r3' \<le> ?F r1"
        proof (rule keep_first_sorted[where key = "\<lambda>r. r ! ?pi" and xs = "sort_key ?F (rows df1)"])
          show "sorted (map ?F (sort_key ?F (rows df1)))" by (rule sorted_sort_key)
          show "r3' \<in> set (keep_first (\<lambda>r. r ! ?pi) (sort_key ?F (rows df1)))"
            using r3'(1) unfolding r3(1) .
          show "r1 \<in> set (sort_key ?F (rows df1))" using r1(1) by simp
          show "r1 ! ?pi = r3' ! ?pi" using r1(2) r3'(2) by simp
        qed
        then have "clave_fecha_desc (r3' ! ?pt) \<le> clave_fecha_desc (r1 ! ?pt)"
          using r1(2) r3'(2) by (simp add: less_eq_prod_def)
        then have "clave_fecha_desc (to_datetime parse c') \<le> (False, - d)"
          using rel[OF r1(1)] rel[OF in1] r1(3) r3'(3) h(3) by simp
        then obtain d' where "to_datetime parse c' = Date d'" "d \<le> d'"
          using clave_fecha_desc_le by blast
        then show ?thesis by blast
      qed
      show ?thesis using 1 2 3 by blast
    qed
  qed
qed


lemma ordenable_set: "set cs = set cs' \<Longrightarrow> ordenable cs = ordenable cs'"
proof -
  assume e: "set cs = set cs'"
  have "set (map tipo (filter (\<lambda>c. c \<noteq> Null) cs)) = set (map tipo (filter (\<lambda>c. c \<noteq> Null) cs'))"
    using e by simp
  then show ?thesis
    unfolding ordenable_def length_remdups_card_conv by simp
qed

text \<open>
  The function returns on every table that has the key column and whose keys can
  be sorted (in the bronze layer every key is a text or missing).
\<close>

lemma detectar_duplicados_returns:
  assumes "columna_id \<in> set (columns df0)" "ordenable (get_col df0 columna_id)"
  shows "\<exists>df'. detectar_duplicados parse df0 columna_id = Inr df'"
proof -
  let ?df = "df0\<lparr>rows := keep_first (\<lambda>r. r) (rows df0)\<rparr>"
  have "set (get_col ?df columna_id) = set (get_col df0 columna_id)"
    by (simp add: get_col_def col_pos_def keep_first_id_set)
  then have "ordenable (get_col ?df columna_id)"
    using assms(2) ordenable_set by blast
  then show ?thesis
    using assms(1) by (simp add: detectar_duplicados_def Let_def)
qed

definition tabla_dup_limpia :: table where
  "tabla_dup_limpia =
     \<lparr>columns = [''customer_id'', ''last_purchase_date'', ''monthly_spend''],
      rows = [[Str ''C1'', Str ''2024-06-01'', Str ''250''],
              [Str ''C2'', Str ''2024-03-05'', Str ''70'']]\<rparr>"

lemma detectar_tabla_dup:
  "detectar_duplicados parse_ejemplo tabla_dup ''customer_id'' = Inr tabla_dup_limpia"
  by (simp add: detectar_duplicados_def tabla_dup_def tabla_dup_limpia_def get_col_def
       col_pos_def set_col_def ordenable_def to_datetime_def parse_ejemplo_def drop_col_def
       drop_nth_def Let_def)

theorem detectar_duplicados_unicos_witness:
  "wf_table tabla_dup \<and>
   detectar_duplicados parse_ejemplo tabla_dup ''customer_id'' = Inr tabla_dup_limpia \<and>
   get_col tabla_dup ''customer_id'' = [Str ''C2'', Str ''C1'', Str ''C1'', Str ''C1''] \<and>
   get_col tabla_dup_limpia ''customer_id'' = [Str ''C1'', Str ''C2''] \<and>
   get_col tabla_dup_limpia ''last_purchase_date'' = [Str ''2024-06-01'', Str ''2024-03-05''] \<and>
   distinct (get_col tabla_dup_limpia ''customer_id'') \<and>
   set (get_col tabla_dup_limpia ''customer_id'') = set (get_col tabla_dup ''customer_id'')"
proof -
  have w: "wf_table tabla_dup"
    by (simp add: wf_table_def tabla_dup_def)
  have g: "get_col tabla_dup ''customer_id'' = [Str ''C2'', Str ''C1'', Str ''C1'', Str ''C1'']"
      "get_col tabla_dup_limpia ''customer_id'' = [Str ''C1'', Str ''C2'']"
      "get_col tabla_dup_limpia ''last_purchase_date'' = [Str ''2024-06-01'', Str ''2024-03-05'']"
    by (simp_all add: get_col_def col_pos_def tabla_dup_def tabla_dup_limpia_def)
  show ?thesis
    using detectar_duplicados_unicos [OF w detectar_tabla_dup] w detectar_tabla_dup g
    by simp
qed

section \<open>The cleaning sequence (bronze\_a\_silver.py)\<close>

text \<open>
  \<^verbatim>\<open>normalizar_fechas\<close> parses each listed column that the table has. The type
  coercion of step 4 replaces the three texts that stand for a missing value
  (\<^verbatim>\<open>NULL\<close>, the empty text, \<^verbatim>\<open>N/A\<close>) in the whole table and converts three
  columns with \<^verbatim>\<open>pd.to_numeric(errors='coerce')\<close>, whose parser is the parameter
  \<open>parse_num\<close>. \<^verbatim>\<open>detectar_outliers\<close> is modelled for the method \<^verbatim>\<open>umbrales\<close>, the one
  the pipeline uses; of its result only the table with the flag columns is kept,
  not the statistics. \<open>limpiar\<close> is steps 2 to 6 of \<^verbatim>\<open>transformar_bronze_a_silver\<close>.
  The date parser of \<^verbatim>\<open>normalizar_fechas\<close> is called with
  \<^verbatim>\<open>infer_datetime_format=True\<close> and the one of \<^verbatim>\<open>detectar_duplicados\<close> is not, so the
  sequence takes one parameter for each.
\<close>

definition normalizar_columna :: "(cell \<Rightarrow> int option) \<Rightarrow> string \<Rightarrow> table \<Rightarrow> table" where
  "normalizar_columna parse columna df =
     (if columna \<notin> set (columns df) then df
      else set_col df columna (map (to_datetime parse) (get_col df columna)))"

definition normalizar_fechas :: "(cell \<Rightarrow> int option) \<Rightarrow> table \<Rightarrow> string list \<Rightarrow> table" where
  "normalizar_fechas parse df columnas_fecha = fold (normalizar_columna parse) columnas_fecha df"

definition replace_value :: "table \<Rightarrow> cell \<Rightarrow> cell \<Rightarrow> table" where
  "replace_value df old new = df\<lparr>rows := map (map (\<lambda>c. if c = old then new else c)) (rows df)\<rparr>"

definition to_numeric :: "(cell \<Rightarrow> real option) \<Rightarrow> cell \<Rightarrow> cell" where
  "to_numeric parse_num c =
     (case c of
        Null \<Rightarrow> Null
      | Num v \<Rightarrow> Num v
      | _ \<Rightarrow> (case parse_num c of None \<Rightarrow> Null | Some v \<Rightarrow> Num v))"

definition convertir_columna :: "(cell \<Rightarrow> real option) \<Rightarrow> string \<Rightarrow> table \<Rightarrow> table" where
  "convertir_columna parse_num columna df =
     (if columna \<in> set (columns df)
      then set_col df columna (map (to_numeric parse_num) (get_col df columna))
      else df)"

definition convertir_tipos :: "(cell \<Rightarrow> real option) \<Rightarrow> table \<Rightarrow> table" where
  "convertir_tipos parse_num df =
     (let df = replace_value df (Str ''NULL'') Null;
          df = replace_value df (Str '''') Null;
          df = replace_value df (Str ''N/A'') Null
      in fold (convertir_columna parse_num) [''monthly_spend'', ''total_shipments'', ''churn_label''] df)"

definition marcar_outliers :: "string \<Rightarrow> table \<Rightarrow> error + table" where
  "marcar_outliers columna df =
     (if columna \<notin> set (columns df) then Inr df
      else if columna = ''monthly_spend'' then
        (if \<not> list_all es_numerica (get_col df columna) then Inl TypeError
         else Inr (set_col df (columna @ ''_is_outlier'')
                     (map (\<lambda>c. Bool (cell_lt c UMBRAL_GASTO_MINIMO \<or> cell_gt c UMBRAL_GASTO_MAXIMO))
                        (get_col df columna))))
      else if columna = ''total_shipments'' then
        (if \<not> list_all es_numerica (get_col df columna) then Inl TypeError
         else Inr (set_col df (columna @ ''_is_outlier'')
                     (map (\<lambda>c. Bool (cell_gt c UMBRAL_ENVIOS_MAXIMO)) (get_col df columna))))
      else Inr df)"

fun detectar_outliers :: "table \<Rightarrow> string list \<Rightarrow> error + table" where
  "detectar_outliers df [] = Inr df"
| "detectar_outliers df (columna # cs) =
     (case marcar_outliers columna df of
        Inl err \<Rightarrow> Inl err
      | Inr df' \<Rightarrow> detectar_outliers df' cs)"

definition endswith :: "string \<Rightarrow> string \<Rightarrow> bool" where
  "endswith s suf = (take (length suf) (rev s) = rev suf)"

definition drop_columns :: "table \<Rightarrow> string list \<Rightarrow> table" where
  "drop_columns df cs = fold (\<lambda>c d. drop_col d c) cs df"

definition limpiar ::
  "(cell \<Rightarrow> int option) \<Rightarrow> (cell \<Rightarrow> int option) \<Rightarrow> (cell \<Rightarrow> real option) \<Rightarrow> table
     \<Rightarrow> error + table" where
  "limpiar parse_temp parse_fecha parse_num df0 =
     luego (detectar_duplicados parse_temp df0 ''customer_id'') (\<lambda>df.
       let df = normalizar_fechas parse_fecha df [''signup_date'', ''last_purchase_date''];
           df = convertir_tipos parse_num df
       in luego (detectar_outliers df [''monthly_spend'', ''total_shipments'']) (\<lambda>df.
          luego (corregir_outliers df ''monthly_spend'' ''cap'') (\<lambda>df.
          luego (corregir_outliers df ''total_shipments'' ''cap'') (\<lambda>df.
            let columnas_outlier = filter (\<lambda>col. endswith col ''_is_outlier'') (columns df);
                df = drop_columns df columnas_outlier
            in manejar_valores_nulos df ESTRATEGIA_NULOS))))"


subsection \<open>Dropping a column that was just added\<close>

lemma drop_nth_append_last: "drop_nth (length xs) (xs @ [a]) = xs"
  by (simp add: drop_nth_def)

lemma drop_nth_append_two: "drop_nth (length xs) ((xs @ [a]) @ [b]) = xs @ [b]"
  by (simp add: drop_nth_def)

lemma map_snoc_zip_nth:
  "length vs = length rs \<Longrightarrow> i < length rs \<Longrightarrow>
   map (\<lambda>(r, v). r @ [v]) (zip rs vs) ! i = rs ! i @ [vs ! i]"
  by simp

lemma drop_col_set_col_new:
  assumes "wf_table df" "c \<notin> set (columns df)" "length vs = length (rows df)"
  shows "drop_col (set_col df c vs) c = df"
proof -
  let ?n = "length (columns df)"
  have len: "length r = ?n" if "r \<in> set (rows df)" for r
    using that assms(1) by (simp add: wf_table_def list_all_iff)
  have cols: "columns (set_col df c vs) = columns df @ [c]"
    and rws: "rows (set_col df c vs) = map (\<lambda>(r, v). r @ [v]) (zip (rows df) vs)"
    using assms(2) by (simp_all add: set_col_def)
  have pc: "col_pos (set_col df c vs) c = ?n"
    using assms(2) by (simp add: col_pos_def cols pos_append_new)
  have r: "map (drop_nth ?n) (map (\<lambda>(r, v). r @ [v]) (zip (rows df) vs)) = rows df"
  proof (rule nth_equalityI)
    show "length (map (drop_nth ?n) (map (\<lambda>(r, v). r @ [v]) (zip (rows df) vs))) = length (rows df)"
      using assms(3) by simp
  next
    fix i assume "i < length (map (drop_nth ?n) (map (\<lambda>(r, v). r @ [v]) (zip (rows df) vs)))"
    then have i: "i < length (rows df)" using assms(3) by simp
    then have "length (rows df ! i) = ?n" using len by simp
    then have "drop_nth ?n (rows df ! i @ [vs ! i]) = rows df ! i"
      using drop_nth_append_last[of "rows df ! i" "vs ! i"] by simp
    then show "map (drop_nth ?n) (map (\<lambda>(r, v). r @ [v]) (zip (rows df) vs)) ! i = rows df ! i"
      using i assms(3) by simp
  qed
  have "drop_col (set_col df c vs) c =
        (set_col df c vs)\<lparr>columns := drop_nth ?n (columns df @ [c]),
                            rows := map (drop_nth ?n) (map (\<lambda>(r, v). r @ [v]) (zip (rows df) vs))\<rparr>"
    by (simp add: drop_col_def cols rws pc)
  also have "\<dots> = df"
    unfolding r drop_nth_append_last using assms(2) by (simp add: set_col_def)
  finally show ?thesis .
qed

lemma drop_col_set_col_two:
  assumes "wf_table df" "c1 \<notin> set (columns df)" "c2 \<notin> set (columns df)" "c1 \<noteq> c2"
      and "length v1 = length (rows df)" "length v2 = length (rows df)"
  shows "drop_col (set_col (set_col df c1 v1) c2 v2) c1 = set_col df c2 v2"
proof -
  let ?n = "length (columns df)"
  let ?t1 = "set_col df c1 v1"
  let ?t2 = "set_col ?t1 c2 v2"
  have len: "length r = ?n" if "r \<in> set (rows df)" for r
    using that assms(1) by (simp add: wf_table_def list_all_iff)
  have cols1: "columns ?t1 = columns df @ [c1]"
    and rws1: "rows ?t1 = map (\<lambda>(r, v). r @ [v]) (zip (rows df) v1)"
    using assms(2) by (simp_all add: set_col_def)
  have n2: "c2 \<notin> set (columns ?t1)" using assms(3,4) by (simp add: cols1)
  have cols2: "columns ?t2 = (columns df @ [c1]) @ [c2]"
    and rws2: "rows ?t2 = map (\<lambda>(r, v). r @ [v]) (zip (map (\<lambda>(r, v). r @ [v]) (zip (rows df) v1)) v2)"
    using n2 by (simp_all add: set_col_def[of ?t1] cols1 rws1)
  have pc: "col_pos ?t2 c1 = ?n"
    using assms(2) pos_append_old[of c1 "columns df @ [c1]" "[c2]"]
    by (simp add: col_pos_def cols2 pos_append_new)
  have r: "map (drop_nth ?n) (rows ?t2) = map (\<lambda>(r, v). r @ [v]) (zip (rows df) v2)"
  proof (rule nth_equalityI)
    show "length (map (drop_nth ?n) (rows ?t2)) = length (map (\<lambda>(r, v). r @ [v]) (zip (rows df) v2))"
      using assms(5,6) by (simp add: rws2)
  next
    fix i assume "i < length (map (drop_nth ?n) (rows ?t2))"
    then have i: "i < length (rows df)" using assms(5,6) by (simp add: rws2)
    then have "length (rows df ! i) = ?n" using len by simp
    then have "drop_nth ?n ((rows df ! i @ [v1 ! i]) @ [v2 ! i]) = rows df ! i @ [v2 ! i]"
      using drop_nth_append_two[of "rows df ! i" "v1 ! i" "v2 ! i"] by simp
    then show "map (drop_nth ?n) (rows ?t2) ! i = map (\<lambda>(r, v). r @ [v]) (zip (rows df) v2) ! i"
      using i assms(5,6) by (simp add: rws2)
  qed
  have c1in: "c1 \<in> set (columns ?t2)" by (simp add: cols2)
  have "drop_col ?t2 c1 = ?t2\<lparr>columns := drop_nth ?n ((columns df @ [c1]) @ [c2]),
                               rows := map (drop_nth ?n) (rows ?t2)\<rparr>"
    using c1in by (simp add: drop_col_def pc cols2)
  also have "\<dots> = set_col df c2 v2"
    unfolding r drop_nth_append_two using assms(2,3) n2
    by (simp add: set_col_def[of df] set_col_def[of ?t1] cols1)
  finally show ?thesis .
qed

subsection \<open>A governed table\<close>

text \<open>
  The fixed points of the claim: a table with the governed columns, unique keys,
  parsed dates, spends and shipment counts that are numbers within the thresholds,
  a numeric label, and no missing value, whether as a missing cell or as one of the
  texts the type coercion reads as missing. Such a table carries no flag column:
  the sequence drops every column whose name ends in \<^verbatim>\<open>_is_outlier\<close>.
\<close>

fun es_fecha :: "cell \<Rightarrow> bool" where
  "es_fecha (Date _) = True"
| "es_fecha _ = False"

fun es_numero :: "cell \<Rightarrow> bool" where
  "es_numero (Num _) = True"
| "es_numero _ = False"

definition gasto_valido :: "cell \<Rightarrow> bool" where
  "gasto_valido c =
     (case c of Num v \<Rightarrow> UMBRAL_GASTO_MINIMO \<le> v \<and> v \<le> UMBRAL_GASTO_MAXIMO | _ \<Rightarrow> False)"

definition envios_validos :: "cell \<Rightarrow> bool" where
  "envios_validos c = (case c of Num v \<Rightarrow> v \<le> UMBRAL_ENVIOS_MAXIMO | _ \<Rightarrow> False)"

definition es_faltante :: "cell \<Rightarrow> bool" where
  "es_faltante c = (c = Null \<or> c = Str ''NULL'' \<or> c = Str [] \<or> c = Str ''N/A'')"

definition tabla_gobernada :: "table \<Rightarrow> bool" where
  "tabla_gobernada df =
     (wf_table df \<and>
      list_all (\<lambda>c. c \<in> set (columns df))
        [''customer_id'', ''signup_date'', ''last_purchase_date'',
         ''monthly_spend'', ''total_shipments'', ''churn_label''] \<and>
      \<not> list_ex (\<lambda>col. endswith col ''_is_outlier'') (columns df) \<and>
      distinct (get_col df ''customer_id'') \<and>
      list_all es_fecha (get_col df ''signup_date'') \<and>
      list_all es_fecha (get_col df ''last_purchase_date'') \<and>
      list_all gasto_valido (get_col df ''monthly_spend'') \<and>
      list_all envios_validos (get_col df ''total_shipments'') \<and>
      list_all es_numero (get_col df ''churn_label'') \<and>
      list_all (\<lambda>r. \<not> list_ex es_faltante r) (rows df))"

subsection \<open>Each stage on a governed table\<close>

lemma detectar_sin_duplicados:
  assumes "c \<in> set (columns df)" "distinct (get_col df c)"
  shows "detectar_duplicados parse df c = Inr df"
proof -
  have "distinct (rows df)"
    using assms(2) unfolding get_col_def by (simp add: distinct_map)
  then have "keep_first (\<lambda>r. r) (rows df) = rows df"
    by (intro keep_first_distinct_id) simp
  then show ?thesis
    using assms by (simp add: detectar_duplicados_def Let_def)
qed

lemma to_datetime_fechas: "list_all es_fecha cs \<Longrightarrow> map (to_datetime parse) cs = cs"
proof (induction cs)
  case Nil
  show ?case by simp
next
  case (Cons c cs)
  then show ?case by (cases c) simp_all
qed

lemma normalizar_columna_id:
  assumes "wf_table df" "list_all es_fecha (get_col df c)"
  shows "normalizar_columna parse c df = df"
  using assms by (simp add: normalizar_columna_def to_datetime_fechas set_col_get_col_id)

lemma replace_value_id:
  assumes "list_all (\<lambda>r. old \<notin> set r) (rows df)"
  shows "replace_value df old new = df"
proof -
  have "map (\<lambda>c. if c = old then new else c) r = r" if "r \<in> set (rows df)" for r
  proof -
    have "old \<notin> set r" using that assms by (simp add: list_all_iff)
    then show ?thesis by (induction r) auto
  qed
  then have "map (map (\<lambda>c. if c = old then new else c)) (rows df) = rows df"
    by (simp add: map_idI)
  then show ?thesis by (simp add: replace_value_def)
qed

lemma to_numeric_numeros: "list_all es_numero cs \<Longrightarrow> map (to_numeric parse_num) cs = cs"
proof (induction cs)
  case Nil
  show ?case by simp
next
  case (Cons c cs)
  then show ?case by (cases c) (simp_all add: to_numeric_def)
qed

lemma convertir_columna_id:
  assumes "wf_table df" "list_all es_numero (get_col df c)"
  shows "convertir_columna parse_num c df = df"
  using assms by (simp add: convertir_columna_def to_numeric_numeros set_col_get_col_id)

lemma gasto_valido_numero: "gasto_valido c \<Longrightarrow> es_numero c"
  by (cases c) (simp_all add: gasto_valido_def)

lemma envios_validos_numero: "envios_validos c \<Longrightarrow> es_numero c"
  by (cases c) (simp_all add: envios_validos_def)

lemma es_numero_numerica: "es_numero c \<Longrightarrow> es_numerica c"
  by (cases c) simp_all

lemma gasto_valido_no_outlier:
  "gasto_valido c \<Longrightarrow> \<not> cell_lt c 0 \<and> \<not> cell_gt c UMBRAL_GASTO_MAXIMO"
  by (cases c) (simp_all add: gasto_valido_def cell_lt_def cell_gt_def UMBRAL_GASTO_MINIMO_def)

lemma envios_validos_no_outlier: "envios_validos c \<Longrightarrow> \<not> cell_gt c UMBRAL_ENVIOS_MAXIMO"
  by (cases c) (simp_all add: envios_validos_def cell_gt_def)

lemma sin_faltantes_columna:
  assumes "wf_table df" "list_all (\<lambda>r. \<not> list_ex es_faltante r) (rows df)" "c \<in> set (columns df)"
  shows "Null \<notin> set (get_col df c)"
proof
  assume "Null \<in> set (get_col df c)"
  then obtain r where r: "r \<in> set (rows df)" "r ! col_pos df c = Null"
    unfolding get_col_def by auto
  have "length r = length (columns df)"
    using r(1) assms(1) by (simp add: wf_table_def list_all_iff)
  then have "r ! col_pos df c \<in> set r" using col_pos_lt[OF assms(3)] by simp
  then have "list_ex es_faltante r" using r(2) by (auto simp: list_ex_iff es_faltante_def)
  then show False using assms(2) r(1) by (simp add: list_all_iff)
qed

lemma aplicar_sin_nulos:
  assumes "wf_table df" "list_all (\<lambda>r. \<not> list_ex es_faltante r) (rows df)"
  shows "aplicar_estrategia df c e = Inr df"
proof (cases "c \<in> set (columns df)")
  case True
  have "Null \<notin> set (get_col df c)" using assms True by (rule sin_faltantes_columna)
  then show ?thesis by (simp add: aplicar_estrategia_def)
next
  case False
  then show ?thesis by (simp add: aplicar_estrategia_def)
qed

lemma manejar_sin_nulos:
  assumes "wf_table df" "list_all (\<lambda>r. \<not> list_ex es_faltante r) (rows df)"
  shows "manejar_valores_nulos df es = Inr df"
proof (induction es)
  case Nil
  show ?case by simp
next
  case (Cons x es)
  obtain c e where "x = (c, e)" by (cases x)
  then show ?case using Cons aplicar_sin_nulos[OF assms] by simp
qed

subsection \<open>The outlier flags come and go\<close>

lemma endswith_append: "endswith (s @ suf) suf"
  by (simp add: endswith_def)

lemma corregir_gasto_id:
  assumes "wf_table df" "''monthly_spend'' \<in> set (columns df)"
      and "list_all gasto_valido (get_col df ''monthly_spend'')"
  shows "corregir_outliers df ''monthly_spend'' ''cap'' = Inr df"
proof -
  let ?g = "''monthly_spend''"
  have num: "list_all es_numerica (get_col df ?g)"
    using assms(3) by (auto simp: list_all_iff intro: es_numero_numerica gasto_valido_numero)
  have a: "\<not> list_ex (\<lambda>c. cell_lt c 0) (get_col df ?g)"
    using assms(3) gasto_valido_no_outlier by (auto simp: list_all_iff list_ex_iff)
  have b: "\<not> list_ex (\<lambda>c. cell_gt c UMBRAL_GASTO_MAXIMO) (get_col df ?g)"
    using assms(3) gasto_valido_no_outlier by (auto simp: list_all_iff list_ex_iff)
  have 1: "loc_set df ?g (\<lambda>c. cell_lt c 0) (Num 0) = df"
    using assms(1,2) a by (rule loc_set_noop)
  have 2: "loc_set df ?g (\<lambda>c. cell_gt c UMBRAL_GASTO_MAXIMO) (Num UMBRAL_GASTO_MAXIMO) = df"
    using assms(1,2) b by (rule loc_set_noop)
  show ?thesis
    using corregir_gasto_eq[OF assms(1,2) num] by (simp add: 1 2)
qed

lemma corregir_envios_id:
  assumes "wf_table df" "''total_shipments'' \<in> set (columns df)"
      and "list_all envios_validos (get_col df ''total_shipments'')"
  shows "corregir_outliers df ''total_shipments'' ''cap'' = Inr df"
proof -
  let ?e = "''total_shipments''"
  have num: "list_all es_numerica (get_col df ?e)"
    using assms(3) by (auto simp: list_all_iff intro: es_numero_numerica envios_validos_numero)
  have b: "\<not> list_ex (\<lambda>c. cell_gt c UMBRAL_ENVIOS_MAXIMO) (get_col df ?e)"
    using assms(3) envios_validos_no_outlier by (auto simp: list_all_iff list_ex_iff)
  have 2: "loc_set df ?e (\<lambda>c. cell_gt c UMBRAL_ENVIOS_MAXIMO) (Num UMBRAL_ENVIOS_MAXIMO) = df"
    using assms(1,2) b by (rule loc_set_noop)
  show ?thesis
    using corregir_envios_eq[OF assms(1,2) num] by (simp add: 2)
qed

lemma banderas_ida_y_vuelta:
  assumes wf: "wf_table df"
      and g: "''monthly_spend'' \<in> set (columns df)" and e: "''total_shipments'' \<in> set (columns df)"
      and nf: "\<not> list_ex (\<lambda>col. endswith col ''_is_outlier'') (columns df)"
      and vg: "list_all gasto_valido (get_col df ''monthly_spend'')"
      and ve: "list_all envios_validos (get_col df ''total_shipments'')"
  shows "luego (detectar_outliers df [''monthly_spend'', ''total_shipments'']) (\<lambda>df.
           luego (corregir_outliers df ''monthly_spend'' ''cap'') (\<lambda>df.
           luego (corregir_outliers df ''total_shipments'' ''cap'') (\<lambda>df.
             Inr (drop_columns df (filter (\<lambda>col. endswith col ''_is_outlier'') (columns df))))))
         = Inr df"
proof -
  let ?g = "''monthly_spend''" and ?e = "''total_shipments''"
  let ?f1 = "''monthly_spend_is_outlier''" and ?f2 = "''total_shipments_is_outlier''"
  have ew: "endswith ?f1 ''_is_outlier''" "endswith ?f2 ''_is_outlier''"
    by (simp_all add: endswith_def)
  let ?v1 = "map (\<lambda>c. Bool (cell_lt c UMBRAL_GASTO_MINIMO \<or> cell_gt c UMBRAL_GASTO_MAXIMO))
               (get_col df ?g)"
  let ?v2 = "map (\<lambda>c. Bool (cell_gt c UMBRAL_ENVIOS_MAXIMO)) (get_col df ?e)"
  let ?t1 = "set_col df ?f1 ?v1"
  let ?t2 = "set_col ?t1 ?f2 ?v2"
  have flag: "\<not> endswith c ''_is_outlier''" if "c \<in> set (columns df)" for c
    using nf that by (auto simp: list_ex_iff)
  have n1: "?f1 \<notin> set (columns df)" using flag ew(1) by blast
  have n2: "?f2 \<notin> set (columns df)" using flag ew(2) by blast
  have l1: "length ?v1 = length (rows df)" and l2: "length ?v2 = length (rows df)" by simp_all
  note a1 = set_col_absent[OF wf n1 l1]
  have numg: "list_all es_numerica (get_col df ?g)"
    using vg by (auto simp: list_all_iff intro: es_numero_numerica gasto_valido_numero)
  have nume: "list_all es_numerica (get_col df ?e)"
    using ve by (auto simp: list_all_iff intro: es_numero_numerica envios_validos_numero)
  have m1: "marcar_outliers ?g df = Inr ?t1"
    using g numg by (simp add: marcar_outliers_def)
  have e1: "?e \<in> set (columns ?t1)" using e by (simp add: a1(2))
  have ge1: "get_col ?t1 ?e = get_col df ?e" using a1(4)[OF e] .
  have m2: "marcar_outliers ?e ?t1 = Inr ?t2"
    using e1 nume by (simp add: marcar_outliers_def ge1)
  have n21: "?f2 \<notin> set (columns ?t1)" using n2 by (simp add: a1(2))
  have l21: "length ?v2 = length (rows ?t1)" using a1(5) by simp
  note a2 = set_col_absent[OF a1(1) n21 l21]
  have det: "detectar_outliers df [?g, ?e] = Inr ?t2"
    by (simp add: m1 m2)
  have g2: "?g \<in> set (columns ?t2)" and e2: "?e \<in> set (columns ?t2)"
    using g e by (simp_all add: a2(2) a1(2))
  have gg2: "get_col ?t2 ?g = get_col df ?g"
    using a2(4)[of ?g] a1(4)[OF g] g by (simp add: a1(2))
  have ge2: "get_col ?t2 ?e = get_col df ?e"
    using a2(4)[of ?e] ge1 e by (simp add: a1(2))
  have c1: "corregir_outliers ?t2 ?g ''cap'' = Inr ?t2"
    using a2(1) g2 vg by (intro corregir_gasto_id) (simp_all only: gg2)
  have c2: "corregir_outliers ?t2 ?e ''cap'' = Inr ?t2"
    using a2(1) e2 ve by (intro corregir_envios_id) (simp_all only: ge2)
  have none: "filter (\<lambda>col. endswith col ''_is_outlier'') (columns df) = []"
    using flag by (simp add: filter_empty_conv)
  have fl: "filter (\<lambda>col. endswith col ''_is_outlier'') (columns ?t2) = [?f1, ?f2]"
    unfolding a2(2) a1(2) using none ew by simp
  have d1: "drop_col ?t2 ?f1 = set_col df ?f2 ?v2"
    using wf n1 n2 _ l1 l2 by (rule drop_col_set_col_two) simp
  have d2: "drop_col (set_col df ?f2 ?v2) ?f2 = df"
    using wf n2 l2 by (rule drop_col_set_col_new)
  have dr: "drop_columns ?t2 [?f1, ?f2] = df"
    by (simp add: drop_columns_def d1 d2)
  show ?thesis
    unfolding det luego_simps c1 c2 fl dr ..
qed

text \<open>
  Claim C5. On a table of the governed layer (the six governed columns, unique
  \<^verbatim>\<open>customer_id\<close> keys, parsed dates, spends and shipment counts that are numbers
  within the thresholds, a numeric label, no missing cell and no text that the
  type coercion reads as missing, and no leftover flag column) the cleaning
  sequence of \<^verbatim>\<open>transformar_bronze_a_silver\<close> returns the table unchanged.
\<close>

theorem limpiar_idempotente:
  assumes "tabla_gobernada df"
  shows "limpiar parse_temp parse_fecha parse_num df = Inr df"
proof -
  have wf: "wf_table df"
    and cols: "''customer_id'' \<in> set (columns df)" "''signup_date'' \<in> set (columns df)"
      "''last_purchase_date'' \<in> set (columns df)" "''monthly_spend'' \<in> set (columns df)"
      "''total_shipments'' \<in> set (columns df)" "''churn_label'' \<in> set (columns df)"
    and nf: "\<not> list_ex (\<lambda>col. endswith col ''_is_outlier'') (columns df)"
    and di: "distinct (get_col df ''customer_id'')"
    and fs: "list_all es_fecha (get_col df ''signup_date'')"
    and fl: "list_all es_fecha (get_col df ''last_purchase_date'')"
    and vg: "list_all gasto_valido (get_col df ''monthly_spend'')"
    and ve: "list_all envios_validos (get_col df ''total_shipments'')"
    and vy: "list_all es_numero (get_col df ''churn_label'')"
    and sf: "list_all (\<lambda>r. \<not> list_ex es_faltante r) (rows df)"
    using assms unfolding tabla_gobernada_def by simp_all
  have s1: "detectar_duplicados parse_temp df ''customer_id'' = Inr df"
    using cols(1) di by (rule detectar_sin_duplicados)
  have s2: "normalizar_fechas parse_fecha df [''signup_date'', ''last_purchase_date''] = df"
    using wf fs fl by (simp add: normalizar_fechas_def normalizar_columna_id)
  have no: "list_all (\<lambda>r. old \<notin> set r) (rows df)" if "es_faltante old" for old
    using sf that by (auto simp: list_all_iff list_ex_iff)
  have r1: "replace_value df (Str ''NULL'') Null = df"
    by (rule replace_value_id, rule no) (simp add: es_faltante_def)
  have r2: "replace_value df (Str []) Null = df"
    by (rule replace_value_id, rule no) (simp add: es_faltante_def)
  have r3: "replace_value df (Str ''N/A'') Null = df"
    by (rule replace_value_id, rule no) (simp add: es_faltante_def)
  have ng: "list_all es_numero (get_col df ''monthly_spend'')"
    using vg by (auto simp: list_all_iff intro: gasto_valido_numero)
  have ne: "list_all es_numero (get_col df ''total_shipments'')"
    using ve by (auto simp: list_all_iff intro: envios_validos_numero)
  have s3: "convertir_tipos parse_num df = df"
    using wf ng ne vy by (simp add: convertir_tipos_def r1 r2 r3 convertir_columna_id)
  have s5: "manejar_valores_nulos df ESTRATEGIA_NULOS = Inr df"
    using wf sf by (rule manejar_sin_nulos)
  note s4 = banderas_ida_y_vuelta[OF wf cols(4,5) nf vg ve]
  have "limpiar parse_temp parse_fecha parse_num df =
        luego (luego (detectar_outliers df [''monthly_spend'', ''total_shipments'']) (\<lambda>df.
           luego (corregir_outliers df ''monthly_spend'' ''cap'') (\<lambda>df.
           luego (corregir_outliers df ''total_shipments'' ''cap'') (\<lambda>df.
             Inr (drop_columns df (filter (\<lambda>col. endswith col ''_is_outlier'') (columns df)))))))
          (\<lambda>df. manejar_valores_nulos df ESTRATEGIA_NULOS)"
    unfolding limpiar_def s1 luego_simps Let_def s2 s3
    by (simp add: luego_def split: sum.split)
  also have "\<dots> = Inr df" unfolding s4 luego_simps s5 ..
  finally show ?thesis .
qed

definition parse_num_ejemplo :: "cell \<Rightarrow> real option" where
  "parse_num_ejemplo c =
     (if c = Str ''100'' then Some 100 else if c = Str ''-50'' then Some (- 50)
      else if c = Str ''99999'' then Some 99999 else if c = Str ''12'' then Some 12
      else if c = Str ''1000'' then Some 1000 else if c = Str ''0'' then Some 0
      else if c = Str ''1'' then Some 1 else None)"

definition tabla_silver :: table where
  "tabla_silver =
     \<lparr>columns = [''customer_id'', ''signup_date'', ''last_purchase_date'',
                 ''monthly_spend'', ''total_shipments'', ''churn_label''],
      rows = [[Str ''C1'', Date 19723, Date 19875, Num 15000, Num 500, Num 1],
              [Str ''C2'', Date 19787, Date 19875, Num 7550, Num 12, Num 1]]\<rparr>"

lemma tabla_silver_gobernada: "tabla_gobernada tabla_silver"
  by (simp add: tabla_gobernada_def tabla_silver_def wf_table_def get_col_def col_pos_def
        endswith_def gasto_valido_def envios_validos_def es_faltante_def
        UMBRAL_GASTO_MINIMO_def UMBRAL_GASTO_MAXIMO_def UMBRAL_ENVIOS_MAXIMO_def)

theorem limpiar_idempotente_witness:
  "tabla_gobernada tabla_silver \<and>
   limpiar parse_ejemplo parse_ejemplo parse_num_ejemplo tabla_silver = Inr tabla_silver"
  using limpiar_idempotente [OF tabla_silver_gobernada, of parse_ejemplo parse_ejemplo
      parse_num_ejemplo]
    tabla_silver_gobernada
  by simp

section \<open>Who owns the table: the stages on a store\<close>

text \<open>
  A pandas \<^verbatim>\<open>DataFrame\<close> is a mutable object and a stage receives a reference to
  the caller's. The store is the list of the tables that exist, a reference is a
  position in it. \<^verbatim>\<open>df.copy()\<close> and every operation that returns a table
  (\<^verbatim>\<open>drop\<close>, \<^verbatim>\<open>dropna\<close>) add a table to the store; \<^verbatim>\<open>df[c] = values\<close> and
  \<^verbatim>\<open>df.loc[cond, c] = v\<close> write into the table the reference names. Each stage is
  written with these operations, statement by statement, and returns the store and
  the reference of the table it returns. An exception is the value \<open>Inl\<close>; what was
  written before it is not kept in the model.
\<close>

type_synonym ref = nat
type_synonym store = "table list"

definition copiar :: "store \<Rightarrow> ref \<Rightarrow> store \<times> ref" where
  "copiar s r = (s @ [s ! r], length s)"

definition nuevo :: "store \<Rightarrow> table \<Rightarrow> store \<times> ref" where
  "nuevo s t = (s @ [t], length s)"

definition setitem :: "store \<Rightarrow> ref \<Rightarrow> string \<Rightarrow> cell list \<Rightarrow> store" where
  "setitem s r c vs = s[r := set_col (s ! r) c vs]"

definition loc_setitem :: "store \<Rightarrow> ref \<Rightarrow> string \<Rightarrow> (cell \<Rightarrow> bool) \<Rightarrow> cell \<Rightarrow> store" where
  "loc_setitem s r c sel v = s[r := loc_set (s ! r) c sel v]"

subsection \<open>hashear\_datos\_sensibles\<close>

definition COLUMNAS_SENSIBLES :: "string list" where
  "COLUMNAS_SENSIBLES = [''full_name'', ''email'', ''phone'', ''home_address'']"

text \<open>
  \<^verbatim>\<open>hashear_columna\<close> applies \<^verbatim>\<open>hashear_valor\<close> with the configured salt to every
  cell; \<^verbatim>\<open>str(valor)\<close> of a cell that is not a text is the parameter \<open>py_str\<close>. Its
  count of distinct values is only logged and is left out.
\<close>

definition hashear_celda :: "(string \<Rightarrow> string) \<Rightarrow> (cell \<Rightarrow> string) \<Rightarrow> string \<Rightarrow> cell \<Rightarrow> cell" where
  "hashear_celda sha256_hex py_str salt c =
     Str (hashear_valor sha256_hex
            (case c of Null \<Rightarrow> None | Str v \<Rightarrow> Some v | _ \<Rightarrow> Some (py_str c)) salt)"

definition hashear_columna ::
  "(string \<Rightarrow> string) \<Rightarrow> (cell \<Rightarrow> string) \<Rightarrow> cell list \<Rightarrow> string \<Rightarrow> cell list" where
  "hashear_columna sha256_hex py_str serie salt = map (hashear_celda sha256_hex py_str salt) serie"

definition hashear_paso ::
  "(string \<Rightarrow> string) \<Rightarrow> (cell \<Rightarrow> string) \<Rightarrow> ref \<Rightarrow> string \<Rightarrow> string \<Rightarrow> store \<Rightarrow> store" where
  "hashear_paso sha256_hex py_str df_copia sufijo columna s =
     setitem s df_copia (columna @ sufijo)
       (hashear_columna sha256_hex py_str (get_col (s ! df_copia) columna) SALT_HASHING)"

definition hashear_datos_sensibles ::
  "(string \<Rightarrow> string) \<Rightarrow> (cell \<Rightarrow> string) \<Rightarrow> store \<Rightarrow> ref \<Rightarrow> string list \<Rightarrow> string
     \<Rightarrow> store \<times> ref" where
  "hashear_datos_sensibles sha256_hex py_str s df columnas sufijo =
     (let (s1, df_copia) = copiar s df;
          columnas = (if list_ex (\<lambda>col. col \<notin> set (columns (s1 ! df_copia))) columnas
                      then filter (\<lambda>col. col \<in> set (columns (s1 ! df_copia))) columnas
                      else columnas);
          s2 = fold (hashear_paso sha256_hex py_str df_copia sufijo) columnas s1
      in nuevo s2 (drop_columns (s2 ! df_copia) columnas))"

subsection \<open>normalizar\_fechas\<close>

definition normalizar_paso :: "(cell \<Rightarrow> int option) \<Rightarrow> ref \<Rightarrow> string \<Rightarrow> store \<Rightarrow> store" where
  "normalizar_paso parse df columna s =
     (if columna \<notin> set (columns (s ! df)) then s
      else setitem s df columna (map (to_datetime parse) (get_col (s ! df) columna)))"

definition normalizar_fechas_en_sitio ::
  "(cell \<Rightarrow> int option) \<Rightarrow> store \<Rightarrow> ref \<Rightarrow> string list \<Rightarrow> store \<times> ref" where
  "normalizar_fechas_en_sitio parse s df columnas_fecha =
     (fold (normalizar_paso parse df) columnas_fecha s, df)"

subsection \<open>corregir\_outliers\<close>

definition corregir_outliers_en_sitio ::
  "store \<Rightarrow> ref \<Rightarrow> string \<Rightarrow> string \<Rightarrow> error + store \<times> ref" where
  "corregir_outliers_en_sitio s df columna metodo =
     (if columna \<notin> set (columns (s ! df)) then Inr (s, df)
      else if metodo = ''cap'' then
        (if columna = ''monthly_spend'' then
           (if \<not> list_all es_numerica (get_col (s ! df) columna) then Inl TypeError
            else
              let s1 = (if list_ex (\<lambda>c. cell_lt c 0) (get_col (s ! df) columna)
                        then loc_setitem s df columna (\<lambda>c. cell_lt c 0) (Num 0) else s);
                  s2 = (if list_ex (\<lambda>c. cell_gt c UMBRAL_GASTO_MAXIMO) (get_col (s1 ! df) columna)
                        then loc_setitem s1 df columna (\<lambda>c. cell_gt c UMBRAL_GASTO_MAXIMO)
                               (Num UMBRAL_GASTO_MAXIMO)
                        else s1)
              in Inr (s2, df))
         else if columna = ''total_shipments'' then
           (if \<not> list_all es_numerica (get_col (s ! df) columna) then Inl TypeError
            else Inr (if list_ex (\<lambda>c. cell_gt c UMBRAL_ENVIOS_MAXIMO) (get_col (s ! df) columna)
                      then loc_setitem s df columna (\<lambda>c. cell_gt c UMBRAL_ENVIOS_MAXIMO)
                             (Num UMBRAL_ENVIOS_MAXIMO)
                      else s, df))
         else Inr (s, df))
      else Inr (s, df))"

subsection \<open>manejar\_valores\_nulos\<close>

definition aplicar_estrategia_en_sitio ::
  "store \<Rightarrow> ref \<Rightarrow> string \<Rightarrow> estrategia \<Rightarrow> error + store \<times> ref" where
  "aplicar_estrategia_en_sitio s df columna e =
     (if columna \<notin> set (columns (s ! df)) then Inr (s, df)
      else if Null \<notin> set (get_col (s ! df) columna) then Inr (s, df)
      else (case e of
              MISSING \<Rightarrow>
                Inr (setitem s df columna (fillna (Str ''MISSING'') (get_col (s ! df) columna)), df)
            | Mediana \<Rightarrow>
                (case series_median (get_col (s ! df) columna) of
                   Inl err \<Rightarrow> Inl err
                 | Inr mediana \<Rightarrow>
                     Inr (setitem s df columna (fillna mediana (get_col (s ! df) columna)), df))
            | Ffill \<Rightarrow> Inr (setitem s df columna (ffill (get_col (s ! df) columna)), df)
            | Eliminar \<Rightarrow> Inr (nuevo s (dropna (s ! df) columna))))"

fun manejar_valores_nulos_en_sitio ::
  "store \<Rightarrow> ref \<Rightarrow> (string \<times> estrategia) list \<Rightarrow> error + store \<times> ref" where
  "manejar_valores_nulos_en_sitio s df [] = Inr (s, df)"
| "manejar_valores_nulos_en_sitio s df ((columna, e) # es) =
     (case aplicar_estrategia_en_sitio s df columna e of
        Inl err \<Rightarrow> Inl err
      | Inr (s', df') \<Rightarrow> manejar_valores_nulos_en_sitio s' df' es)"

subsection \<open>Refinement\<close>

lemma normalizar_paso_refina:
  "r < length s \<Longrightarrow> normalizar_paso parse r c s = s[r := normalizar_columna parse c (s ! r)]"
  by (simp add: normalizar_paso_def normalizar_columna_def setitem_def)

lemma normalizar_fechas_refina:
  "r < length s \<Longrightarrow>
   normalizar_fechas_en_sitio parse s r cols = (s[r := normalizar_fechas parse (s ! r) cols], r)"
proof (induction cols arbitrary: s)
  case Nil
  then show ?case by (simp add: normalizar_fechas_en_sitio_def normalizar_fechas_def)
next
  case (Cons c cols)
  let ?s1 = "s[r := normalizar_columna parse c (s ! r)]"
  have l: "r < length ?s1" using Cons.prems by simp
  have "fold (normalizar_paso parse r) cols ?s1 =
        ?s1[r := normalizar_fechas parse (?s1 ! r) cols]"
    using Cons.IH[OF l] by (simp add: normalizar_fechas_en_sitio_def)
  then show ?case
    using Cons.prems
    by (simp add: normalizar_fechas_en_sitio_def normalizar_fechas_def normalizar_paso_refina)
qed

lemma corregir_outliers_refina:
  assumes r: "r < length s"
  shows "corregir_outliers_en_sitio s r c m =
           (case corregir_outliers (s ! r) c m of
              Inl err \<Rightarrow> Inl err
            | Inr t \<Rightarrow> Inr (s[r := t], r))"
proof (cases "c \<in> set (columns (s ! r)) \<and> m = ''cap''")
  case False
  then show ?thesis
    by (auto simp: corregir_outliers_en_sitio_def corregir_outliers_def)
next
  case True
  then have c: "c \<in> set (columns (s ! r))" and m: "m = ''cap''" by simp_all
  show ?thesis
  proof (cases "c = ''monthly_spend''")
    case g: True
    show ?thesis
    proof (cases "list_all es_numerica (get_col (s ! r) c)")
      case False
      then show ?thesis
        using c m g by (simp add: corregir_outliers_en_sitio_def corregir_outliers_def)
    next
      case num: True
      define t1 where "t1 = (if list_ex (\<lambda>c. cell_lt c 0) (get_col (s ! r) c)
                             then loc_set (s ! r) c (\<lambda>c. cell_lt c 0) (Num 0) else s ! r)"
      define s1 where "s1 = (if list_ex (\<lambda>c. cell_lt c 0) (get_col (s ! r) c)
                             then loc_setitem s r c (\<lambda>c. cell_lt c 0) (Num 0) else s)"
      have s1: "s1 = s[r := t1]" "s1 ! r = t1"
        using r by (simp_all add: s1_def t1_def loc_setitem_def)
      define t2 where "t2 = (if list_ex (\<lambda>c. cell_gt c UMBRAL_GASTO_MAXIMO) (get_col t1 c)
                             then loc_set t1 c (\<lambda>c. cell_gt c UMBRAL_GASTO_MAXIMO)
                                    (Num UMBRAL_GASTO_MAXIMO)
                             else t1)"
      define s2 where "s2 = (if list_ex (\<lambda>c. cell_gt c UMBRAL_GASTO_MAXIMO) (get_col (s1 ! r) c)
                             then loc_setitem s1 r c (\<lambda>c. cell_gt c UMBRAL_GASTO_MAXIMO)
                                    (Num UMBRAL_GASTO_MAXIMO)
                             else s1)"
      have s2: "s2 = s[r := t2]"
        using r s1 by (simp add: s2_def t2_def loc_setitem_def)
      have a: "corregir_outliers_en_sitio s r c m = Inr (s2, r)"
        using c m g num
        unfolding corregir_outliers_en_sitio_def Let_def s2_def s1_def by simp
      have b: "corregir_outliers (s ! r) c m = Inr t2"
        using c m g num
        unfolding corregir_outliers_def Let_def t2_def t1_def by simp
      show ?thesis unfolding a b s2 by simp
    qed
  next
    case ng: False
    show ?thesis
    proof (cases "c = ''total_shipments''")
      case False
      then show ?thesis
        using c m ng by (simp add: corregir_outliers_en_sitio_def corregir_outliers_def)
    next
      case e: True
      show ?thesis
      proof (cases "list_all es_numerica (get_col (s ! r) c)")
        case False
        then show ?thesis
          using c m e by (simp add: corregir_outliers_en_sitio_def corregir_outliers_def)
      next
        case True
        then show ?thesis
          using c m e r
          by (simp add: corregir_outliers_en_sitio_def corregir_outliers_def loc_setitem_def)
      qed
    qed
  qed
qed

lemma aplicar_estrategia_refina:
  assumes "r < length s" "e \<noteq> Eliminar"
  shows "aplicar_estrategia_en_sitio s r c e =
           (case aplicar_estrategia (s ! r) c e of
              Inl err \<Rightarrow> Inl err
            | Inr t \<Rightarrow> Inr (s[r := t], r))"
proof (cases "c \<in> set (columns (s ! r)) \<and> Null \<in> set (get_col (s ! r) c)")
  case False
  then show ?thesis
    by (auto simp: aplicar_estrategia_en_sitio_def aplicar_estrategia_def)
next
  case True
  show ?thesis
  proof (cases e)
    case MISSING
    then show ?thesis using True
      by (simp add: aplicar_estrategia_en_sitio_def aplicar_estrategia_def setitem_def)
  next
    case Mediana
    then show ?thesis using True
      by (simp add: aplicar_estrategia_en_sitio_def aplicar_estrategia_def setitem_def
            split: sum.split)
  next
    case Ffill
    then show ?thesis using True
      by (simp add: aplicar_estrategia_en_sitio_def aplicar_estrategia_def setitem_def)
  next
    case Eliminar
    then show ?thesis using assms(2) by simp
  qed
qed

lemma manejar_rellenos_refina:
  assumes "r < length s" "Eliminar \<notin> set (map snd es)"
  shows "manejar_valores_nulos_en_sitio s r es =
           (case manejar_valores_nulos (s ! r) es of
              Inl err \<Rightarrow> Inl err
            | Inr t \<Rightarrow> Inr (s[r := t], r))"
  using assms
proof (induction es arbitrary: s)
  case Nil
  then show ?case by simp
next
  case (Cons x es)
  obtain c e where x: "x = (c, e)" by (cases x)
  have e: "e \<noteq> Eliminar" and rest: "Eliminar \<notin> set (map snd es)"
    using Cons.prems(2) x by auto
  show ?case
  proof (cases "aplicar_estrategia (s ! r) c e")
    case (Inl err)
    then show ?thesis
      unfolding x using aplicar_estrategia_refina[OF Cons.prems(1) e, of c] by simp
  next
    case (Inr t)
    have l: "r < length (s[r := t])" using Cons.prems(1) by simp
    have "manejar_valores_nulos_en_sitio (s[r := t]) r es =
            (case manejar_valores_nulos t es of
               Inl err \<Rightarrow> Inl err | Inr t' \<Rightarrow> Inr (s[r := t'], r))"
      using Cons.IH[OF l rest] Cons.prems(1)
      by (cases "manejar_valores_nulos t es") simp_all
    then show ?thesis
      unfolding x using aplicar_estrategia_refina[OF Cons.prems(1) e, of c] Inr by simp
  qed
qed

lemma manejar_en_sitio_append:
  "manejar_valores_nulos_en_sitio s r (xs @ zs) =
     (case manejar_valores_nulos_en_sitio s r xs of
        Inl err \<Rightarrow> Inl err
      | Inr (s', r') \<Rightarrow> manejar_valores_nulos_en_sitio s' r' zs)"
proof (induction xs arbitrary: s r)
  case Nil
  show ?case by simp
next
  case (Cons x xs)
  obtain c e where x: "x = (c, e)" by (cases x)
  show ?case unfolding x
    by (cases "aplicar_estrategia_en_sitio s r c e") (auto simp: Cons.IH)
qed

text \<open>The row removal never writes into the table it reads.\<close>

lemma eliminar_en_sitio:
  assumes "r < length s"
  shows "\<exists>s' res. aplicar_estrategia_en_sitio s r c Eliminar = Inr (s', res) \<and>
           s' ! r = s ! r \<and> aplicar_estrategia (s ! r) c Eliminar = Inr (s' ! res)"
proof (cases "c \<in> set (columns (s ! r)) \<and> Null \<in> set (get_col (s ! r) c)")
  case False
  then show ?thesis
    by (auto simp: aplicar_estrategia_en_sitio_def aplicar_estrategia_def)
next
  case True
  then show ?thesis
    using assms
    by (simp add: aplicar_estrategia_en_sitio_def aplicar_estrategia_def nuevo_def nth_append)
qed

lemma manejar_en_sitio_configurado:
  assumes "r < length s" "manejar_valores_nulos (s ! r) RELLENOS = Inr t"
  shows "\<exists>s' res. manejar_valores_nulos_en_sitio s r ESTRATEGIA_NULOS = Inr (s', res) \<and>
           s' ! r = t \<and> manejar_valores_nulos (s ! r) ESTRATEGIA_NULOS = Inr (s' ! res)"
proof -
  have E: "ESTRATEGIA_NULOS = RELLENOS @ [(''churn_label'', Eliminar)]"
    by (simp add: ESTRATEGIA_NULOS_def RELLENOS_def)
  have ne: "Eliminar \<notin> set (map snd RELLENOS)" by (simp add: RELLENOS_def)
  have f: "manejar_valores_nulos_en_sitio s r RELLENOS = Inr (s[r := t], r)"
    using manejar_rellenos_refina[OF assms(1) ne] assms(2) by simp
  have l: "r < length (s[r := t])" using assms(1) by simp
  obtain s' res where
    el: "aplicar_estrategia_en_sitio (s[r := t]) r ''churn_label'' Eliminar = Inr (s', res)"
      "s' ! r = (s[r := t]) ! r"
      "aplicar_estrategia ((s[r := t]) ! r) ''churn_label'' Eliminar = Inr (s' ! res)"
    using eliminar_en_sitio[OF l] by blast
  have 1: "manejar_valores_nulos_en_sitio s r ESTRATEGIA_NULOS = Inr (s', res)"
    unfolding E manejar_en_sitio_append f using el(1) by simp
  have 2: "s' ! r = t" using el(2) assms(1) by simp
  have 3: "manejar_valores_nulos (s ! r) ESTRATEGIA_NULOS = Inr (s' ! res)"
    unfolding E manejar_append assms(2) using el(3) assms(1) by simp
  show ?thesis using 1 2 3 by blast
qed

subsection \<open>The copy of the anonymiser\<close>

lemma hashear_paso_frame:
  "length (hashear_paso sha256_hex py_str k sufijo columna s) = length s"
  "i \<noteq> k \<Longrightarrow> hashear_paso sha256_hex py_str k sufijo columna s ! i = s ! i"
  by (simp_all add: hashear_paso_def setitem_def)

lemma fold_hashear_paso_frame:
  "length (fold (hashear_paso sha256_hex py_str k sufijo) cols s) = length s \<and>
   (i \<noteq> k \<longrightarrow> fold (hashear_paso sha256_hex py_str k sufijo) cols s ! i = s ! i)"
  by (induction cols arbitrary: s) (simp_all add: hashear_paso_frame)

lemma hashear_datos_sensibles_copia:
  assumes "r < length s"
      and "hashear_datos_sensibles sha256_hex py_str s r columnas sufijo = (s', res)"
  shows "s' ! r = s ! r" and "res = Suc (length s)" and "i < length s \<Longrightarrow> s' ! i = s ! i"
proof -
  let ?s1 = "s @ [s ! r]"
  let ?cols = "(if list_ex (\<lambda>col. col \<notin> set (columns (?s1 ! length s))) columnas
                then filter (\<lambda>col. col \<in> set (columns (?s1 ! length s))) columnas
                else columnas)"
  let ?s2 = "fold (hashear_paso sha256_hex py_str (length s) sufijo) ?cols ?s1"
  have e: "s' = ?s2 @ [drop_columns (?s2 ! length s) ?cols]" "res = length ?s2"
    using assms(2)
    unfolding hashear_datos_sensibles_def copiar_def nuevo_def Let_def by simp_all
  have len: "length ?s2 = Suc (length s)"
    using fold_hashear_paso_frame[of sha256_hex py_str "length s" sufijo ?cols ?s1] by simp
  have old: "?s2 ! i = s ! i" if "i < length s" for i
  proof -
    have "i \<noteq> length s" using that by simp
    then have "?s2 ! i = ?s1 ! i"
      using fold_hashear_paso_frame[of sha256_hex py_str "length s" sufijo ?cols ?s1 i] by simp
    then show ?thesis using that by (simp add: nth_append)
  qed
  show "res = Suc (length s)" using e(2) len by simp
  show "s' ! i = s ! i" if "i < length s" for i
    using that old[OF that] len unfolding e(1) by (simp add: nth_append)
  then show "s' ! r = s ! r" using assms(1) by simp
qed

text \<open>The table the anonymiser returns, as a function of the table it is given.\<close>

definition hashear_paso_tabla ::
  "(string \<Rightarrow> string) \<Rightarrow> (cell \<Rightarrow> string) \<Rightarrow> string \<Rightarrow> string \<Rightarrow> table \<Rightarrow> table" where
  "hashear_paso_tabla sha256_hex py_str sufijo columna t =
     set_col t (columna @ sufijo)
       (hashear_columna sha256_hex py_str (get_col t columna) SALT_HASHING)"

definition hashear_tabla ::
  "(string \<Rightarrow> string) \<Rightarrow> (cell \<Rightarrow> string) \<Rightarrow> table \<Rightarrow> string list \<Rightarrow> string \<Rightarrow> table" where
  "hashear_tabla sha256_hex py_str t columnas sufijo =
     (let columnas = (if list_ex (\<lambda>col. col \<notin> set (columns t)) columnas
                      then filter (\<lambda>col. col \<in> set (columns t)) columnas
                      else columnas)
      in drop_columns (fold (hashear_paso_tabla sha256_hex py_str sufijo) columnas t) columnas)"

lemma fold_hashear_paso_refina:
  "k < length s \<Longrightarrow>
   fold (hashear_paso sha256_hex py_str k sufijo) cols s =
     s[k := fold (hashear_paso_tabla sha256_hex py_str sufijo) cols (s ! k)]"
proof (induction cols arbitrary: s)
  case Nil
  show ?case by simp
next
  case (Cons c cols)
  let ?s1 = "hashear_paso sha256_hex py_str k sufijo c s"
  have s1: "?s1 = s[k := hashear_paso_tabla sha256_hex py_str sufijo c (s ! k)]"
    by (simp add: hashear_paso_def hashear_paso_tabla_def setitem_def)
  have l: "k < length ?s1" using Cons.prems by (simp add: hashear_paso_frame)
  show ?case
    using Cons.IH[OF l] Cons.prems by (simp add: s1)
qed

lemma hashear_datos_sensibles_refina:
  assumes "r < length s"
  shows "hashear_datos_sensibles sha256_hex py_str s r columnas sufijo =
           (s @ [fold (hashear_paso_tabla sha256_hex py_str sufijo)
                   (if list_ex (\<lambda>col. col \<notin> set (columns (s ! r))) columnas
                    then filter (\<lambda>col. col \<in> set (columns (s ! r))) columnas
                    else columnas) (s ! r),
                 hashear_tabla sha256_hex py_str (s ! r) columnas sufijo],
            Suc (length s))"
proof -
  have k: "length s < length (s @ [s ! r])" by simp
  show ?thesis
    unfolding hashear_datos_sensibles_def copiar_def nuevo_def Let_def hashear_tabla_def
      prod.case fold_hashear_paso_refina[OF k]
    by simp
qed

text \<open>
  Claim C4, as the code has it. Tables live in a store and a stage receives the
  reference of the caller's table. \<^verbatim>\<open>hashear_datos_sensibles\<close> works on a copy:
  the caller's table, and every other table of the store, is as before and the
  result is a new table. \<^verbatim>\<open>normalizar_fechas\<close> and \<^verbatim>\<open>corregir_outliers\<close> assign
  into the table they are given and return that same table, which now holds the
  result. \<^verbatim>\<open>manejar_valores_nulos\<close> writes its four fills into the table it is
  given; only the row removal, which comes last, makes a new table.
\<close>

theorem etapas_y_tabla_del_llamador:
  assumes "df < length s"
  shows "(\<forall>s' res. hashear_datos_sensibles sha256_hex py_str s df columnas sufijo = (s', res)
            \<longrightarrow> s' ! df = s ! df \<and> res \<noteq> df \<and>
                s' ! res = hashear_tabla sha256_hex py_str (s ! df) columnas sufijo) \<and>
         normalizar_fechas_en_sitio parse s df columnas_fecha =
           (s[df := normalizar_fechas parse (s ! df) columnas_fecha], df) \<and>
         corregir_outliers_en_sitio s df columna metodo =
           (case corregir_outliers (s ! df) columna metodo of
              Inl err \<Rightarrow> Inl err
            | Inr t \<Rightarrow> Inr (s[df := t], df)) \<and>
         (\<forall>t. manejar_valores_nulos (s ! df) RELLENOS = Inr t
            \<longrightarrow> (\<exists>s' res. manejar_valores_nulos_en_sitio s df ESTRATEGIA_NULOS = Inr (s', res) \<and>
                   s' ! df = t \<and>
                   manejar_valores_nulos (s ! df) ESTRATEGIA_NULOS = Inr (s' ! res)))"
proof (intro conjI allI impI)
  fix s' res
  assume h: "hashear_datos_sensibles sha256_hex py_str s df columnas sufijo = (s', res)"
  show "s' ! df = s ! df" using assms h by (rule hashear_datos_sensibles_copia(1))
  have r: "res = Suc (length s)" using assms h by (rule hashear_datos_sensibles_copia(2))
  then show "res \<noteq> df" using assms by simp
  show "s' ! res = hashear_tabla sha256_hex py_str (s ! df) columnas sufijo"
    using h unfolding hashear_datos_sensibles_refina[OF assms] by (auto simp: nth_append)
next
  show "normalizar_fechas_en_sitio parse s df columnas_fecha =
          (s[df := normalizar_fechas parse (s ! df) columnas_fecha], df)"
    using assms by (rule normalizar_fechas_refina)
next
  show "corregir_outliers_en_sitio s df columna metodo =
          (case corregir_outliers (s ! df) columna metodo of
             Inl err \<Rightarrow> Inl err
           | Inr t \<Rightarrow> Inr (s[df := t], df))"
    using assms by (rule corregir_outliers_refina)
next
  fix t
  assume "manejar_valores_nulos (s ! df) RELLENOS = Inr t"
  with assms
  show "\<exists>s' res. manejar_valores_nulos_en_sitio s df ESTRATEGIA_NULOS = Inr (s', res) \<and>
          s' ! df = t \<and> manejar_valores_nulos (s ! df) ESTRATEGIA_NULOS = Inr (s' ! res)"
    by (rule manejar_en_sitio_configurado)
qed

text \<open>
  The claim as the specification words it fails on \<^verbatim>\<open>normalizar_fechas\<close>: called on
  the table of the deduplication example, it returns the caller's own table, whose
  purchase dates are no longer the texts the caller had.
\<close>

theorem normalizar_fechas_modifica_al_llamador:
  "snd (normalizar_fechas_en_sitio parse_ejemplo [tabla_dup] 0 [''last_purchase_date'']) = 0 \<and>
   fst (normalizar_fechas_en_sitio parse_ejemplo [tabla_dup] 0 [''last_purchase_date'']) ! 0
     \<noteq> tabla_dup \<and>
   get_col (fst (normalizar_fechas_en_sitio parse_ejemplo [tabla_dup] 0 [''last_purchase_date'']) ! 0)
     ''last_purchase_date'' = [Date 19787, Date 19723, Date 19875, Date 19723]"
  by (simp add: normalizar_fechas_en_sitio_def normalizar_paso_def setitem_def tabla_dup_def
       get_col_def col_pos_def set_col_def to_datetime_def parse_ejemplo_def)

definition tabla_nulos_rellena :: table where
  "tabla_nulos_rellena =
     \<lparr>columns = [''customer_id'', ''phone'', ''signup_date'', ''last_purchase_date'',
                 ''monthly_spend'', ''churn_label''],
      rows = [[Str ''C1'', Str ''MISSING'', Null, Null, Num 100, Num 0],
              [Str ''C2'', Str ''555'', Date 10, Date 20, Num 200, Num 1],
              [Str ''C3'', Str ''556'', Date 11, Date 20, Num 300, Null]]\<rparr>"

lemma rellenos_tabla_nulos:
  "manejar_valores_nulos tabla_nulos RELLENOS = Inr tabla_nulos_rellena"
  by (simp add: tabla_nulos_def tabla_nulos_rellena_def RELLENOS_def aplicar_estrategia_def
        get_col_def col_pos_def set_col_def fillna_def ffill_def series_median_def
        median_reals_def valor_num_def)

theorem etapas_y_tabla_del_llamador_witness:
  "(0::nat) < length [tabla_nulos] \<and>
   fst (hashear_datos_sensibles (\<lambda>v. ''#'' @ v) (\<lambda>c. ''?'') [tabla_nulos] 0
          COLUMNAS_SENSIBLES ''_hash'') ! 0 = tabla_nulos \<and>
   snd (hashear_datos_sensibles (\<lambda>v. ''#'' @ v) (\<lambda>c. ''?'') [tabla_nulos] 0
          COLUMNAS_SENSIBLES ''_hash'') \<noteq> 0 \<and>
   normalizar_fechas_en_sitio parse_ejemplo [tabla_nulos] 0 [''signup_date''] =
     ([normalizar_fechas parse_ejemplo tabla_nulos [''signup_date'']], 0) \<and>
   manejar_valores_nulos tabla_nulos RELLENOS = Inr tabla_nulos_rellena \<and>
   (\<exists>s' res. manejar_valores_nulos_en_sitio [tabla_nulos] 0 ESTRATEGIA_NULOS = Inr (s', res) \<and>
      s' ! 0 = tabla_nulos_rellena \<and>
      manejar_valores_nulos tabla_nulos ESTRATEGIA_NULOS = Inr (s' ! res))"
proof -
  have l: "(0::nat) < length [tabla_nulos]" by simp
  note th = etapas_y_tabla_del_llamador [OF l, of "\<lambda>v. ''#'' @ v" "\<lambda>c. ''?''"
      COLUMNAS_SENSIBLES "''_hash''" parse_ejemplo "[''signup_date'']"
      "''monthly_spend''" "''cap''"]
  obtain s' res where h: "hashear_datos_sensibles (\<lambda>v. ''#'' @ v) (\<lambda>c. ''?'') [tabla_nulos] 0
          COLUMNAS_SENSIBLES ''_hash'' = (s', res)"
    by (cases "hashear_datos_sensibles (\<lambda>v. ''#'' @ v) (\<lambda>c. ''?'') [tabla_nulos] 0
          COLUMNAS_SENSIBLES ''_hash''")
  from th h have a: "s' ! 0 = tabla_nulos" "res \<noteq> 0" by auto
  from th have b: "normalizar_fechas_en_sitio parse_ejemplo [tabla_nulos] 0 [''signup_date''] =
     ([normalizar_fechas parse_ejemplo tabla_nulos [''signup_date'']], 0)"
    by simp
  from th rellenos_tabla_nulos
  have c: "\<exists>s' res. manejar_valores_nulos_en_sitio [tabla_nulos] 0 ESTRATEGIA_NULOS = Inr (s', res) \<and>
      s' ! 0 = tabla_nulos_rellena \<and>
      manejar_valores_nulos tabla_nulos ESTRATEGIA_NULOS = Inr (s' ! res)"
    by simp
  show ?thesis using a b c h rellenos_tabla_nulos by simp
qed

end
